theory Spec2Isabelle
  imports Complex_Main "HOL-Library.Sublist" "HOL-Library.Multiset"
begin

section \<open>Data model of the notebooks\<close>

text \<open>
  The repository holds two notebooks. \<^verbatim>\<open>dev/run_gsa.ipynb\<close> (the local driver) builds
  the model registry, then loops over model names and GSA methods, constructs a
  \<^verbatim>\<open>gf.Problem\<close> per pair and plots its results. The second notebook (the dask-capable
  driver) builds the registry, runs the same double loop through
  \<^verbatim>\<open>problem_per_worker\<close>, which is either \<^verbatim>\<open>gf.Problem\<close> or
  \<^verbatim>\<open>dask.delayed(gf.Problem)\<close>, sets a cluster up and calls \<^verbatim>\<open>dask.compute\<close>.

  Everything the notebooks call in \<^verbatim>\<open>gsa_framework\<close>, \<^verbatim>\<open>pickle\<close>,
  \<^verbatim>\<open>pathlib\<close> and \<^verbatim>\<open>dask\<close> is external. Each such call is an event of a trace,
  and its outcome (a value or an exception) is given by a \<open>world\<close>, as a function of the
  trace so far. Python's unbounded integers are \<open>int\<close>.
\<close>

type_synonym path = "string list"
  \<comment> \<open>a \<^verbatim>\<open>pathlib.Path\<close>, as the list of its components below the root\<close>

datatype exn = KeyError string | NameError string | Exception string
  \<comment> \<open>\<open>KeyError k\<close>: a subscript with a missing key; \<open>NameError v\<close>: a read of an unbound
      name; \<open>Exception\<close>: any other exception, by name\<close>

datatype outcome = Normal | Raised exn

record model_inst =
  num_params :: int
  influential_params :: "nat list"
  \<comment> \<open>a model object of the framework: the two attributes the notebooks read\<close>

record model_config =
  entry_model :: model_inst
  entry_write_dir :: path
  entry_iterations :: int
  entry_const :: int
  \<comment> \<open>a registry entry \<^verbatim>\<open>dict(model=, write_dir=, iterations=, const=)\<close>; the keys carry
      the prefix \<open>entry_\<close> because the keyword arguments of \<^verbatim>\<open>gf.Problem\<close> share their names\<close>

type_synonym registry = "(string \<times> model_config) list"
  \<comment> \<open>\<^verbatim>\<open>models_dict\<close>: a dict literal, in the order it is written\<close>

type_synonym sample_matrix = "real list list"

record problem_args =
  sampler :: string
  model :: model_inst
  interpreter :: string
  write_dir :: path
  iterations :: "int option"
  seed :: int
  X :: "sample_matrix option"
  \<comment> \<open>the keyword arguments of \<^verbatim>\<open>gf.Problem(...)\<close>; \<open>None\<close> is Python's \<^verbatim>\<open>None\<close>\<close>

type_synonym sa_results = "(string \<times> real list) list"
  \<comment> \<open>the unpickled dict from index name to index values, in the order of \<^verbatim>\<open>.items()\<close>\<close>

record problem_obj =
  gsa_dict :: "(string \<times> path) list"
  \<comment> \<open>a constructed \<^verbatim>\<open>gf.Problem\<close>: the attribute the notebooks read\<close>

datatype task = Evaluated problem_obj | Deferred problem_args
  \<comment> \<open>what \<^verbatim>\<open>problem_per_worker(...)\<close> returns: a Problem, or a \<^verbatim>\<open>dask\<close> Delayed that holds
      the arguments and has constructed nothing yet\<close>

subsection \<open>The registry cells\<close>

definition path_base :: path where
  "path_base = [''Users'', ''akim'', ''PycharmProjects'', ''gsa_framework'', ''dev'',
                ''write_files'', ''paper_gsa'']"

definition write_dir_lca :: path where "write_dir_lca = path_base @ [''lca_model'']"
definition write_dir_moon :: path where "write_dir_moon = path_base @ [''moon_model'']"
definition write_dir_morris :: path where "write_dir_morris = path_base @ [''morris_model'']"
definition write_dir_SL :: path where "write_dir_SL = path_base @ [''sobol_levitan_model'']"

text \<open>
  The four model objects come from the framework's constructors
  (\<^verbatim>\<open>gf.LCAModel(demand, method, write_dir_lca)\<close>, \<^verbatim>\<open>gf.Moon()\<close>, \<^verbatim>\<open>gf.Morris(...)\<close>,
  \<^verbatim>\<open>gf.SobolLevitan(...)\<close>) and are parameters here.
\<close>

definition models_dict_local ::
  "model_inst \<Rightarrow> model_inst \<Rightarrow> model_inst \<Rightarrow> model_inst \<Rightarrow> registry" where
  "models_dict_local model_lca model_moon model_morris model_SL =
    (let const_lca = 2;
         iterations_lca = num_params model_lca * const_lca;
         const_moon = num_params model_moon;
         iterations_moon = num_params model_moon * const_moon;
         const_morris = num_params model_morris * 2;
         iterations_morris = num_params model_morris * const_morris;
         const_SL = num_params model_SL;
         iterations_SL = num_params model_SL * const_SL
     in [(''lca'', \<lparr>entry_model = model_lca, entry_write_dir = write_dir_lca,
                    entry_iterations = iterations_lca, entry_const = const_lca\<rparr>),
         (''moon'', \<lparr>entry_model = model_moon, entry_write_dir = write_dir_moon,
                     entry_iterations = iterations_moon, entry_const = const_moon\<rparr>),
         (''morris'', \<lparr>entry_model = model_morris, entry_write_dir = write_dir_morris,
                       entry_iterations = iterations_morris, entry_const = const_morris\<rparr>),
         (''sobol_levitan'', \<lparr>entry_model = model_SL, entry_write_dir = write_dir_SL,
                              entry_iterations = iterations_SL, entry_const = const_SL\<rparr>)])"

definition models_dict_dask ::
  "model_inst \<Rightarrow> model_inst \<Rightarrow> model_inst \<Rightarrow> model_inst \<Rightarrow> registry" where
  "models_dict_dask model_lca model_moon model_morris model_SL =
    (let const_lca = 2;
         iterations_lca = num_params model_lca * const_lca;
         const_moon = 2;
         iterations_moon = num_params model_moon * const_moon;
         const_morris = 2;
         iterations_morris = num_params model_morris * const_morris;
         const_SL = 2;
         iterations_SL = num_params model_SL * const_SL
     in [(''lca'', \<lparr>entry_model = model_lca, entry_write_dir = write_dir_lca,
                    entry_iterations = iterations_lca, entry_const = const_lca\<rparr>),
         (''moon'', \<lparr>entry_model = model_moon, entry_write_dir = write_dir_moon,
                     entry_iterations = iterations_moon, entry_const = const_moon\<rparr>),
         (''morris'', \<lparr>entry_model = model_morris, entry_write_dir = write_dir_morris,
                       entry_iterations = iterations_morris, entry_const = const_morris\<rparr>),
         (''sobol_levitan'', \<lparr>entry_model = model_SL, entry_write_dir = write_dir_SL,
                              entry_iterations = iterations_SL, entry_const = const_SL\<rparr>)])"

definition iterations_scaled :: "model_config \<Rightarrow> bool" where
  "iterations_scaled e \<longleftrightarrow> entry_iterations e = num_params (entry_model e) * entry_const e"


section \<open>Events, the external world and the notebook state\<close>

datatype cluster =
    SLURMCluster int string string string path path string
    \<comment> \<open>cores, memory, walltime, interface, local\_directory, log\_directory, queue\<close>
  | LocalCluster string
    \<comment> \<open>memory\_limit\<close>

datatype event =
    Print string
  | Exists path bool
  | Mkdir path "exn option"
  | ProblemCall problem_args "exn + problem_obj"
  | DelayedWrap
  | DelayedCall problem_args
  | Open path "exn option"
  | PickleLoad path "exn + sa_results"
  | Plot problem_obj sa_results "nat list" "exn option"
  | ClusterNew cluster "exn option"
  | ClientNew cluster "exn option"
  | Scale cluster int "exn option"
  | Compute nat

text \<open>
  \<open>Exists p b\<close> is \<^verbatim>\<open>p.exists()\<close> returning \<open>b\<close>; \<open>Mkdir p r\<close> is
  \<^verbatim>\<open>p.mkdir(parents=True, exist_ok=True)\<close>; \<open>ProblemCall a r\<close> is \<^verbatim>\<open>gf.Problem(**a)\<close>;
  \<open>DelayedWrap\<close> is \<^verbatim>\<open>dask.delayed(gf.Problem)\<close> and \<open>DelayedCall a\<close> a call of the
  wrapped constructor, which only records \<open>a\<close>; \<open>Plot p ind infl r\<close> is
  \<^verbatim>\<open>p.plot_sa_results(ind, infl)\<close>; \<open>Compute n\<close> is \<^verbatim>\<open>dask.compute\<close> on a list of
  \<open>n\<close> elements. An outcome \<open>Some e\<close> or \<open>Inl e\<close> is the exception the call raised.
\<close>

record world =
  mkdir_outcome :: "event list \<Rightarrow> path \<Rightarrow> exn option"
  Problem_outcome :: "event list \<Rightarrow> problem_args \<Rightarrow> exn + problem_obj"
  open_outcome :: "event list \<Rightarrow> path \<Rightarrow> exn option"
  load_outcome :: "event list \<Rightarrow> path \<Rightarrow> exn + sa_results"
  plot_outcome :: "event list \<Rightarrow> problem_obj \<Rightarrow> sa_results \<Rightarrow> nat list \<Rightarrow> exn option"
  cluster_outcome :: "event list \<Rightarrow> cluster \<Rightarrow> exn option"
  client_outcome :: "event list \<Rightarrow> cluster \<Rightarrow> exn option"
  scale_outcome :: "event list \<Rightarrow> cluster \<Rightarrow> int \<Rightarrow> exn option"
  schedule :: "event list \<Rightarrow> nat \<Rightarrow> nat list"
  \<comment> \<open>the order in which the scheduler runs the tasks of a \<^verbatim>\<open>dask.compute\<close>, by index\<close>

text \<open>
  The state of a notebook: the trace of external calls, the directories that exist, and
  the kernel's namespace. The notebooks only test paths with \<^verbatim>\<open>exists()\<close> and create
  directories, so every path that exists is a directory here; only \<^verbatim>\<open>mkdir\<close> changes
  \<open>dirs\<close>. A cell's variables are globals of the kernel and stay bound
  after the cell; \<open>None\<close> is a name that is not bound yet. The variables \<^verbatim>\<open>model\<close>,
  \<^verbatim>\<open>write_dir\<close> and \<^verbatim>\<open>iterations\<close> carry the prefix \<open>v_\<close>, since \<^verbatim>\<open>gf.Problem\<close>'s
  keyword arguments have these names.
\<close>

record state =
  trace :: "event list"
  dirs :: "path set"
  models_dict :: registry
  model_name :: "string option"
  v_model :: "model_inst option"
  v_write_dir :: "path option"
  gsa_method :: "string option"
  v_iterations :: "int option option"
  problem :: "task option"
  filename_sa_results :: "path option"
  f :: "path option"
  sa_results :: "sa_results option"
  sa_index_name :: "string option"
  sa_index_values :: "real list option"
  sa_indices :: "sa_results option"
  use_dask :: "bool option"
  model_evals :: "task list"
  which_pc :: "string option"
  path_dask_logs :: "path option"
  cluster :: "cluster option"
  n_workers :: "int option"

definition emit :: "event \<Rightarrow> state \<Rightarrow> state" where
  "emit e st = st\<lparr>trace := trace st @ [e]\<rparr>"

definition fresh_kernel :: "registry \<Rightarrow> path set \<Rightarrow> state" where
  "fresh_kernel reg D =
     \<lparr>trace = [], dirs = D, models_dict = reg, model_name = None, v_model = None,
      v_write_dir = None, gsa_method = None, v_iterations = None, problem = None,
      filename_sa_results = None, f = None, sa_results = None, sa_index_name = None,
      sa_index_values = None, sa_indices = None, use_dask = None, model_evals = [],
      which_pc = None, path_dask_logs = None, cluster = None, n_workers = None\<rparr>"

section \<open>Directory setup\<close>

definition ensure_dir :: "world \<Rightarrow> path \<Rightarrow> state \<Rightarrow> outcome \<times> state" where
  "ensure_dir w p st =
     (let b = (p \<in> dirs st); st1 = emit (Exists p b) st in
      if \<not> b then
        (let r = mkdir_outcome w (trace st1) p; st2 = emit (Mkdir p r) st1 in
         case r of
           Some e \<Rightarrow> (Raised e, st2)
         | None \<Rightarrow> (Normal, st2\<lparr>dirs := dirs st2 \<union> set (prefixes p)\<rparr>))
      else (Normal, st1))"

section \<open>The local driver\<close>

text \<open>
  The loop of \<^verbatim>\<open>dev/run_gsa.ipynb\<close>. The model names and the GSA methods are the two
  list literals of the cell; they are parameters, since a user selects by commenting
  entries in and out. \<open>local_driver\<close> is the outer loop (the two subscripts
  \<^verbatim>\<open>models_dict[model_name]\<close> read the same entry), \<open>local_methods\<close> the inner loop,
  \<open>local_pair\<close> its body up to the construction, \<open>result_consumer\<close> the rest of the
  body and \<open>plot_loop\<close> the loop over \<^verbatim>\<open>sa_results.items()\<close>. The \<^verbatim>\<open>try\<close> around the
  plot call is commented out in the source, so a plot call that raises ends the run.
\<close>

fun plot_loop :: "world \<Rightarrow> problem_obj \<Rightarrow> model_inst \<Rightarrow> sa_results \<Rightarrow> state \<Rightarrow> outcome \<times> state" where
  "plot_loop w p m [] st = (Normal, st)"
| "plot_loop w p m ((name, vals) # rest) st =
     (let st1 = st\<lparr>sa_index_name := Some name, sa_index_values := Some vals\<rparr>;
          ind = [(name, vals)];
          st2 = st1\<lparr>sa_indices := Some ind\<rparr>;
          r = plot_outcome w (trace st2) p ind (influential_params m);
          st3 = emit (Plot p ind (influential_params m) r) st2
      in case r of
           Some e \<Rightarrow> (Raised e, st3)
         | None \<Rightarrow> plot_loop w p m rest st3)"

definition result_consumer :: "world \<Rightarrow> problem_obj \<Rightarrow> model_inst \<Rightarrow> state \<Rightarrow> outcome \<times> state" where
  "result_consumer w p m st =
     (case map_of (gsa_dict p) ''sa_results'' of
        None \<Rightarrow> (Raised (KeyError ''sa_results''), st)
      | Some fn \<Rightarrow>
          (let st1 = st\<lparr>filename_sa_results := Some fn\<rparr>;
               ro = open_outcome w (trace st1) fn;
               st2 = emit (Open fn ro) st1
           in case ro of
                Some e \<Rightarrow> (Raised e, st2)
              | None \<Rightarrow>
                  (let st3 = st2\<lparr>f := Some fn\<rparr>;
                       rl = load_outcome w (trace st3) fn;
                       st4 = emit (PickleLoad fn rl) st3
                   in case rl of
                        Inl e \<Rightarrow> (Raised e, st4)
                      | Inr res \<Rightarrow> plot_loop w p m res (st4\<lparr>sa_results := Some res\<rparr>))))"

definition local_pair ::
  "world \<Rightarrow> string \<Rightarrow> model_inst \<Rightarrow> path \<Rightarrow> string \<Rightarrow> state \<Rightarrow> outcome \<times> state" where
  "local_pair w mn m wd g st =
     (let st1 = emit (Print (''--- '' @ g)) (st\<lparr>gsa_method := Some g\<rparr>) in
      case map_of (models_dict st1) mn of
        None \<Rightarrow> (Raised (KeyError mn), st1)
      | Some cfg \<Rightarrow>
          (let args = \<lparr>sampler = ''random'', model = m, interpreter = g, write_dir = wd,
                       iterations = Some (entry_iterations cfg), seed = 34534, X = None\<rparr>;
               r = Problem_outcome w (trace st1) args;
               st2 = emit (ProblemCall args r) st1
           in case r of
                Inl e \<Rightarrow> (Raised e, st2)
              | Inr p \<Rightarrow> result_consumer w p m (st2\<lparr>problem := Some (Evaluated p)\<rparr>)))"

fun local_methods ::
  "world \<Rightarrow> string \<Rightarrow> model_inst \<Rightarrow> path \<Rightarrow> string list \<Rightarrow> state \<Rightarrow> outcome \<times> state" where
  "local_methods w mn m wd [] st = (Normal, st)"
| "local_methods w mn m wd (g # gs) st =
     (case local_pair w mn m wd g st of
        (Raised e, st') \<Rightarrow> (Raised e, st')
      | (Normal, st') \<Rightarrow> local_methods w mn m wd gs st')"

fun local_driver :: "world \<Rightarrow> string list \<Rightarrow> string list \<Rightarrow> state \<Rightarrow> outcome \<times> state" where
  "local_driver w [] gsa_methods st = (Normal, st)"
| "local_driver w (mn # rest) gsa_methods st =
     (let st1 = emit (Print (CHR 0x0A # ''>>> '' @ mn)) (st\<lparr>model_name := Some mn\<rparr>) in
      case map_of (models_dict st1) mn of
        None \<Rightarrow> (Raised (KeyError mn), st1)
      | Some cfg \<Rightarrow>
          (let m = entry_model cfg;
               wd = entry_write_dir cfg;
               st2 = st1\<lparr>v_model := Some m, v_write_dir := Some wd\<rparr>
           in case ensure_dir w wd st2 of
                (Raised e, st3) \<Rightarrow> (Raised e, st3)
              | (Normal, st3) \<Rightarrow>
                  (case local_methods w mn m wd gsa_methods st3 of
                     (Raised e, st4) \<Rightarrow> (Raised e, st4)
                   | (Normal, st4) \<Rightarrow> local_driver w rest gsa_methods st4)))"


section \<open>The dask-capable driver\<close>

subsection \<open>Python's \<^verbatim>\<open>str\<close> on the printed values\<close>

definition digit :: "nat \<Rightarrow> char" where
  "digit n = ''0123456789'' ! n"

function str_nat :: "nat \<Rightarrow> string" where
  "str_nat n = (if n < 10 then [digit n] else str_nat (n div 10) @ [digit (n mod 10)])"
  by pat_completeness auto
termination
  by (relation "measure (\<lambda>n. n)") auto

declare str_nat.simps [simp del]

definition str_int :: "int \<Rightarrow> string" where
  "str_int i = (if i < 0 then CHR ''-'' # str_nat (nat (- i)) else str_nat (nat i))"

definition str_iterations :: "int option \<Rightarrow> string" where
  "str_iterations it = (case it of None \<Rightarrow> ''None'' | Some i \<Rightarrow> str_int i)"

subsection \<open>The driver cell\<close>

text \<open>
  The cell assigns \<^verbatim>\<open>use_dask = False\<close>; the parameter \<open>ud\<close> is the value written
  there. With \<open>ud\<close> false \<^verbatim>\<open>problem_per_worker\<close> is \<^verbatim>\<open>gf.Problem\<close>, with \<open>ud\<close> true
  it is \<^verbatim>\<open>dask.delayed(gf.Problem)\<close>, whose call constructs nothing; the variable
  \<^verbatim>\<open>problem_per_worker\<close> is one of these two functions, fixed by \<open>ud\<close>, and is not kept
  in the state. The plotting block of this cell is commented out as a whole.
\<close>

definition problem_per_worker ::
  "world \<Rightarrow> bool \<Rightarrow> problem_args \<Rightarrow> state \<Rightarrow> (exn + task) \<times> state" where
  "problem_per_worker w ud args st =
     (if ud then (Inr (Deferred args), emit (DelayedCall args) st)
      else
        (let r = Problem_outcome w (trace st) args;
             st1 = emit (ProblemCall args r) st
         in case r of
              Inl e \<Rightarrow> (Inl e, st1)
            | Inr p \<Rightarrow> (Inr (Evaluated p), st1)))"

definition dask_pair ::
  "world \<Rightarrow> bool \<Rightarrow> string \<Rightarrow> model_inst \<Rightarrow> path \<Rightarrow> string \<Rightarrow> state \<Rightarrow> outcome \<times> state" where
  "dask_pair w ud mn m wd g st =
     (let st0 = st\<lparr>gsa_method := Some g\<rparr>;
          it = (if g = ''eFAST_indices'' then Inr (Some 130)
                else if g = ''correlation_coefficients'' then Inr None
                else (case map_of (models_dict st0) mn of
                        None \<Rightarrow> Inl (KeyError mn)
                      | Some cfg \<Rightarrow> Inr (Some (entry_iterations cfg))))
      in case it of
           Inl e \<Rightarrow> (Raised e, st0)
         | Inr its \<Rightarrow>
             (let st1 = emit (Print (''--- '' @ g @ '' -> '' @ str_int (num_params m)
                                     @ '' parameters, '' @ str_iterations its @ '' iterations''))
                             (st0\<lparr>v_iterations := Some its\<rparr>);
                  args = \<lparr>sampler = ''random'', model = m, interpreter = g, write_dir = wd,
                          iterations = its, seed = 34534, X = None\<rparr>
              in case problem_per_worker w ud args st1 of
                   (Inl e, st2) \<Rightarrow> (Raised e, st2)
                 | (Inr t, st2) \<Rightarrow>
                     (Normal, st2\<lparr>problem := Some t, model_evals := model_evals st2 @ [t]\<rparr>)))"

fun dask_methods ::
  "world \<Rightarrow> bool \<Rightarrow> string \<Rightarrow> model_inst \<Rightarrow> path \<Rightarrow> string list \<Rightarrow> state \<Rightarrow> outcome \<times> state" where
  "dask_methods w ud mn m wd [] st = (Normal, st)"
| "dask_methods w ud mn m wd (g # gs) st =
     (case dask_pair w ud mn m wd g st of
        (Raised e, st') \<Rightarrow> (Raised e, st')
      | (Normal, st') \<Rightarrow> dask_methods w ud mn m wd gs st')"

fun dask_models :: "world \<Rightarrow> bool \<Rightarrow> string list \<Rightarrow> string list \<Rightarrow> state \<Rightarrow> outcome \<times> state" where
  "dask_models w ud [] gsa_methods st = (Normal, st)"
| "dask_models w ud (mn # rest) gsa_methods st =
     (let st1 = emit (Print (CHR 0x0A # ''>>> '' @ mn)) (st\<lparr>model_name := Some mn\<rparr>) in
      case map_of (models_dict st1) mn of
        None \<Rightarrow> (Raised (KeyError mn), st1)
      | Some cfg \<Rightarrow>
          (let m = entry_model cfg;
               wd = entry_write_dir cfg;
               st2 = st1\<lparr>v_model := Some m, v_write_dir := Some wd\<rparr>
           in case ensure_dir w wd st2 of
                (Raised e, st3) \<Rightarrow> (Raised e, st3)
              | (Normal, st3) \<Rightarrow>
                  (case dask_methods w ud mn m wd gsa_methods st3 of
                     (Raised e, st4) \<Rightarrow> (Raised e, st4)
                   | (Normal, st4) \<Rightarrow> dask_models w ud rest gsa_methods st4)))"

definition dask_driver ::
  "world \<Rightarrow> bool \<Rightarrow> string list \<Rightarrow> string list \<Rightarrow> state \<Rightarrow> outcome \<times> state" where
  "dask_driver w ud model_names gsa_methods st =
     (let st1 = st\<lparr>use_dask := Some ud\<rparr>;
          st2 = (if ud then emit DelayedWrap st1 else st1);
          st3 = st2\<lparr>model_evals := []\<rparr>
      in dask_models w ud model_names gsa_methods st3)"

subsection \<open>The cluster cells and \<^verbatim>\<open>dask.compute\<close>\<close>

text \<open>
  The cells after the driver cell: the cluster (\<^verbatim>\<open>which_pc\<close> is the parameter \<open>pc\<close>),
  the client, the scaling to one worker per pair, and \<^verbatim>\<open>dask.compute(model_evals)\<close>.
  The cell that only displays \<^verbatim>\<open>client\<close> and the cell whose lines are all commented
  out do nothing.
\<close>

definition contains :: "string \<Rightarrow> string \<Rightarrow> bool" where
  "contains s t = list_ex (\<lambda>i. take (length s) (drop i t) = s) [0..<Suc (length t)]"
  \<comment> \<open>Python's \<^verbatim>\<open>s in t\<close> on strings\<close>

definition workers_cell :: "world \<Rightarrow> string \<Rightarrow> state \<Rightarrow> outcome \<times> state" where
  "workers_cell w pc st =
     (let st0 = st\<lparr>which_pc := Some pc\<rparr> in
      if contains ''merlin'' pc then
        (let logs = [''data'', ''user'', ''kim_a'', ''dask_logs''];
             st1 = st0\<lparr>path_dask_logs := Some logs\<rparr>
         in case ensure_dir w logs st1 of
              (Raised e, st2) \<Rightarrow> (Raised e, st2)
            | (Normal, st2) \<Rightarrow>
                (let c = SLURMCluster 2 ''28GB'' ''00:50:00'' ''ib0'' logs logs ''hourly'';
                     r = cluster_outcome w (trace st2) c;
                     st3 = emit (ClusterNew c r) st2
                 in case r of
                      Some e \<Rightarrow> (Raised e, st3)
                    | None \<Rightarrow> (Normal, st3\<lparr>cluster := Some c\<rparr>)))
      else if contains ''local'' pc then
        (let c = LocalCluster ''7GB'';
             r = cluster_outcome w (trace st0) c;
             st3 = emit (ClusterNew c r) st0
         in case r of
              Some e \<Rightarrow> (Raised e, st3)
            | None \<Rightarrow> (Normal, st3\<lparr>cluster := Some c\<rparr>))
      else (Normal, st0))"

definition client_cell :: "world \<Rightarrow> state \<Rightarrow> outcome \<times> state" where
  "client_cell w st =
     (case cluster st of
        None \<Rightarrow> (Raised (NameError ''cluster''), st)
      | Some c \<Rightarrow>
          (let r = client_outcome w (trace st) c;
               st1 = emit (ClientNew c r) st
           in case r of Some e \<Rightarrow> (Raised e, st1) | None \<Rightarrow> (Normal, st1)))"

definition scale_cell :: "world \<Rightarrow> string list \<Rightarrow> string list \<Rightarrow> state \<Rightarrow> outcome \<times> state" where
  "scale_cell w model_names gsa_methods st =
     (let n = int (length gsa_methods) * int (length model_names);
          st0 = st\<lparr>n_workers := Some n\<rparr>
      in case cluster st0 of
           None \<Rightarrow> (Raised (NameError ''cluster''), st0)
         | Some c \<Rightarrow>
             (let r = scale_outcome w (trace st0) c n;
                  st1 = emit (Scale c n r) st0
              in case r of Some e \<Rightarrow> (Raised e, st1) | None \<Rightarrow> (Normal, st1)))"

definition sched_order :: "nat list \<Rightarrow> nat \<Rightarrow> nat list" where
  "sched_order s n = remdups (filter (\<lambda>i. i < n) s) @ filter (\<lambda>i. i \<notin> set s) [0..<n]"
  \<comment> \<open>the scheduler's order read as a permutation of the \<open>n\<close> tasks: indices out of range
      and repetitions are dropped, tasks it leaves out run last\<close>

fun run_tasks :: "world \<Rightarrow> task list \<Rightarrow> state \<Rightarrow> outcome \<times> state" where
  "run_tasks w [] st = (Normal, st)"
| "run_tasks w (Evaluated p # ts) st = run_tasks w ts st"
| "run_tasks w (Deferred args # ts) st =
     (let r = Problem_outcome w (trace st) args;
          st1 = emit (ProblemCall args r) st
      in case r of
           Inl e \<Rightarrow> (Raised e, st1)
         | Inr p \<Rightarrow> run_tasks w ts st1)"

definition compute_cell :: "world \<Rightarrow> state \<Rightarrow> outcome \<times> state" where
  "compute_cell w st =
     (let ts = model_evals st;
          st1 = emit (Compute (length ts)) st;
          order = sched_order (schedule w (trace st1) (length ts)) (length ts)
      in run_tasks w (map (\<lambda>i. ts ! i) order) st1)"

text \<open>
  \<^verbatim>\<open>dask.compute\<close> runs every Delayed of the list once and passes any other element
  through. The tasks run one after the other here, in the scheduler's order; a task that
  raises makes \<^verbatim>\<open>dask.compute\<close> raise, and the model runs no task after it.
\<close>

definition and_then ::
  "outcome \<times> state \<Rightarrow> (state \<Rightarrow> outcome \<times> state) \<Rightarrow> outcome \<times> state" where
  "and_then r cell = (case r of (Raised e, st) \<Rightarrow> (Raised e, st) | (Normal, st) \<Rightarrow> cell st)"
  \<comment> \<open>the next cell runs when the one before it did not raise\<close>

definition notebook_dask ::
  "world \<Rightarrow> bool \<Rightarrow> string \<Rightarrow> string list \<Rightarrow> string list \<Rightarrow> state \<Rightarrow> outcome \<times> state" where
  "notebook_dask w ud pc model_names gsa_methods st =
     and_then (and_then (and_then (and_then
       (dask_driver w ud model_names gsa_methods st)
       (workers_cell w pc))
       (client_cell w))
       (scale_cell w model_names gsa_methods))
       (compute_cell w)"

section \<open>Reading a trace\<close>

definition since :: "event list \<Rightarrow> event list \<Rightarrow> event list" where
  "since t t' = drop (length t) t'"
  \<comment> \<open>the events of \<open>t'\<close> after those of the earlier trace \<open>t\<close>\<close>

fun constructions :: "event list \<Rightarrow> problem_args list" where
  "constructions [] = []"
| "constructions (ProblemCall a r # es) = a # constructions es"
| "constructions (e # es) = constructions es"

fun descriptors :: "event list \<Rightarrow> problem_args list" where
  "descriptors [] = []"
| "descriptors (ProblemCall a r # es) = a # descriptors es"
| "descriptors (DelayedCall a # es) = a # descriptors es"
| "descriptors (e # es) = descriptors es"


fun exn_of :: "event \<Rightarrow> exn option" where
  "exn_of (Mkdir p r) = r"
| "exn_of (ProblemCall a r) = (case r of Inl e \<Rightarrow> Some e | Inr p \<Rightarrow> None)"
| "exn_of (Open p r) = r"
| "exn_of (PickleLoad p r) = (case r of Inl e \<Rightarrow> Some e | Inr res \<Rightarrow> None)"
| "exn_of (Plot p ind infl r) = r"
| "exn_of (ClusterNew c r) = r"
| "exn_of (ClientNew c r) = r"
| "exn_of (Scale c n r) = r"
| "exn_of e = None"

definition quiet :: "event list \<Rightarrow> bool" where
  "quiet evs = list_all (\<lambda>e. exn_of e = None) evs"

fun own_exn :: "exn \<Rightarrow> bool" where
  "own_exn (KeyError k) = True"
| "own_exn (NameError v) = True"
| "own_exn (Exception n) = False"

fun propagated :: "outcome \<Rightarrow> event list \<Rightarrow> bool" where
  "propagated Normal evs = quiet evs"
| "propagated (Raised x) evs =
     ((evs \<noteq> [] \<and> quiet (butlast evs) \<and> exn_of (last evs) = Some x) \<or> (own_exn x \<and> quiet evs))"

text \<open>
  \<open>propagated out evs\<close>: no call before the last one raised; a run that ends normally
  saw no exception at all; a run that raises \<open>x\<close> either made a last call that raised
  \<open>x\<close>, or raised \<open>x\<close> itself at a subscript or a name (and then no call raised).
\<close>

fun replay_dirs :: "path set \<Rightarrow> event list \<Rightarrow> path set" where
  "replay_dirs D [] = D"
| "replay_dirs D (Mkdir p None # es) = replay_dirs (D \<union> set (prefixes p)) es"
| "replay_dirs D (e # es) = replay_dirs D es"

fun writes_guarded :: "path set \<Rightarrow> event list \<Rightarrow> bool" where
  "writes_guarded D [] = True"
| "writes_guarded D (Exists p b # es) = (b = (p \<in> D) \<and> writes_guarded D es)"
| "writes_guarded D (Mkdir p r # es) =
     (p \<notin> D \<and> writes_guarded (replay_dirs D [Mkdir p r]) es)"
| "writes_guarded D (ProblemCall a r # es) = (write_dir a \<in> D \<and> writes_guarded D es)"
| "writes_guarded D (DelayedCall a # es) = (write_dir a \<in> D \<and> writes_guarded D es)"
| "writes_guarded D (e # es) = writes_guarded D es"

text \<open>
  \<open>writes_guarded D evs\<close> replays \<open>evs\<close> from the directories \<open>D\<close>: every
  \<^verbatim>\<open>exists()\<close> answers for the directories of that moment, \<^verbatim>\<open>mkdir\<close> is called on an
  absent directory only, and at every construction (or deferred construction) of a
  Problem its output directory exists.
\<close>

section \<open>What the specification expects\<close>

definition spec_local_args :: "model_config \<Rightarrow> string \<Rightarrow> problem_args" where
  "spec_local_args cfg g =
     \<lparr>sampler = ''random'', model = entry_model cfg, interpreter = g,
      write_dir = entry_write_dir cfg, iterations = Some (entry_iterations cfg),
      seed = 34534, X = None\<rparr>"

definition spec_iterations :: "model_config \<Rightarrow> string \<Rightarrow> int option" where
  "spec_iterations cfg g =
     (if g = ''eFAST_indices'' then Some 130
      else if g = ''correlation_coefficients'' then None
      else Some (entry_iterations cfg))"

definition spec_dask_args :: "model_config \<Rightarrow> string \<Rightarrow> problem_args" where
  "spec_dask_args cfg g =
     \<lparr>sampler = ''random'', model = entry_model cfg, interpreter = g,
      write_dir = entry_write_dir cfg, iterations = spec_iterations cfg g,
      seed = 34534, X = None\<rparr>"

definition planned ::
  "(model_config \<Rightarrow> string \<Rightarrow> 'a) \<Rightarrow> registry \<Rightarrow> string list \<Rightarrow> string list \<Rightarrow> 'a option list" where
  "planned mk reg model_names gsa_methods =
     map (\<lambda>(mn, g). map_option (\<lambda>cfg. mk cfg g) (map_of reg mn))
         (List.product model_names gsa_methods)"
  \<comment> \<open>one descriptor per (model, method) pair, model-major; \<open>None\<close> for a name the
      registry does not have\<close>

definition progress :: "outcome \<Rightarrow> 'a list \<Rightarrow> 'a list \<Rightarrow> bool" where
  "progress out done plan = (case out of Normal \<Rightarrow> done = plan | Raised e \<Rightarrow> prefix done plan)"
  \<comment> \<open>a run that ends normally has done the whole plan, a run that raises a prefix of it\<close>

fun deferred_args :: "task list \<Rightarrow> problem_args list" where
  "deferred_args [] = []"
| "deferred_args (Deferred a # ts) = a # deferred_args ts"
| "deferred_args (Evaluated p # ts) = deferred_args ts"



definition loaded_after ::
  "sa_results option \<Rightarrow> (problem_args \<times> problem_obj \<times> path \<times> sa_results) list
     \<Rightarrow> sa_results option" where
  "loaded_after bound blocks =
     (if blocks = [] then bound else Some (snd (snd (snd (last blocks)))))"
  \<comment> \<open>what the variable \<^verbatim>\<open>sa_results\<close> holds after the pairs \<open>blocks\<close>: the result set of
      the last one, or what it held before when there was no pair\<close>

section \<open>Concrete models and worlds\<close>

definition demo_lca :: model_inst where
  "demo_lca = \<lparr>num_params = 114688, influential_params = []\<rparr>"
definition demo_moon :: model_inst where
  "demo_moon = \<lparr>num_params = 3, influential_params = [0]\<rparr>"
definition demo_morris :: model_inst where
  "demo_morris = \<lparr>num_params = 50, influential_params = [0, 1, 2, 3, 4]\<rparr>"
definition demo_SL :: model_inst where
  "demo_SL = \<lparr>num_params = 20, influential_params = [0, 1]\<rparr>"

definition demo_results :: sa_results where
  "demo_results = [(''first'', [1/2, 1/4]), (''total'', [3/4, 1/4])]"

definition calm_world :: world where
  "calm_world =
     \<lparr>mkdir_outcome = (\<lambda>h p. None),
      Problem_outcome = (\<lambda>h a. Inr \<lparr>gsa_dict = [(''sa_results'', write_dir a @ [interpreter a])]\<rparr>),
      open_outcome = (\<lambda>h p. None),
      load_outcome = (\<lambda>h p. Inr demo_results),
      plot_outcome = (\<lambda>h p ind infl. None),
      cluster_outcome = (\<lambda>h c. None),
      client_outcome = (\<lambda>h c. None),
      scale_outcome = (\<lambda>h c n. None),
      schedule = (\<lambda>h n. rev [0..<n])\<rparr>"

definition stormy_world :: world where
  "stormy_world =
     calm_world\<lparr>Problem_outcome := (\<lambda>h a.
        if interpreter a = ''sobol_indices'' then Inl (Exception ''ValueError'')
        else Problem_outcome calm_world h a)\<rparr>"

definition local_kernel :: state where
  "local_kernel = fresh_kernel (models_dict_local demo_lca demo_moon demo_morris demo_SL) {}"

definition dask_kernel :: state where
  "dask_kernel = fresh_kernel (models_dict_dask demo_lca demo_moon demo_morris demo_SL) {}"

section \<open>Basic facts\<close>

lemma trace_emit [simp]: "trace (emit e st) = trace st @ [e]"
  by (simp add: emit_def)

lemma dirs_emit [simp]: "dirs (emit e st) = dirs st"
  by (simp add: emit_def)

lemma models_dict_emit [simp]: "models_dict (emit e st) = models_dict st"
  by (simp add: emit_def)

lemma model_evals_emit [simp]: "model_evals (emit e st) = model_evals st"
  by (simp add: emit_def)

lemma sa_results_emit [simp]: "sa_results (emit e st) = sa_results st"
  by (simp add: emit_def)

lemma cluster_emit [simp]: "cluster (emit e st) = cluster st"
  by (simp add: emit_def)

lemma since_append [simp]: "since t (t @ N) = N"
  by (simp add: since_def)

lemma and_then_cases:
  assumes "and_then r cell = (out, st')"
  obtains (stop) e where "r = (Raised e, st')" and "out = Raised e"
        | (go) st1 where "r = (Normal, st1)" and "cell st1 = (out, st')"
  using assms by (auto simp: and_then_def split: prod.splits outcome.splits)

lemma notebook_dask_cases:
  assumes "notebook_dask w ud pc mns gs st = (out, st')"
  obtains (driver) e where "dask_driver w ud mns gs st = (Raised e, st')" and "out = Raised e"
   | (workers) e s1 where "dask_driver w ud mns gs st = (Normal, s1)"
       and "workers_cell w pc s1 = (Raised e, st')" and "out = Raised e"
   | (client) e s1 s2 where "dask_driver w ud mns gs st = (Normal, s1)"
       and "workers_cell w pc s1 = (Normal, s2)"
       and "client_cell w s2 = (Raised e, st')" and "out = Raised e"
   | (scale) e s1 s2 s3 where "dask_driver w ud mns gs st = (Normal, s1)"
       and "workers_cell w pc s1 = (Normal, s2)" and "client_cell w s2 = (Normal, s3)"
       and "scale_cell w mns gs s3 = (Raised e, st')" and "out = Raised e"
   | (compute) s1 s2 s3 s4 where "dask_driver w ud mns gs st = (Normal, s1)"
       and "workers_cell w pc s1 = (Normal, s2)" and "client_cell w s2 = (Normal, s3)"
       and "scale_cell w mns gs s3 = (Normal, s4)" and "compute_cell w s4 = (out, st')"
  using assms unfolding notebook_dask_def
  by (elim and_then_cases) auto

subsection \<open>The registry is never written\<close>

lemma ensure_dir_registry:
  "ensure_dir w p st = (out, st') \<Longrightarrow> models_dict st' = models_dict st"
  by (auto simp: ensure_dir_def Let_def split: option.splits if_splits)

lemma plot_loop_registry:
  "plot_loop w p m res st = (out, st') \<Longrightarrow> models_dict st' = models_dict st"
proof (induction res arbitrary: st)
  case Nil
  then show ?case by simp
next
  case (Cons nv res)
  obtain name vals where nv: "nv = (name, vals)" by (cases nv)
  from Cons.prems show ?case
    by (auto simp: nv Let_def split: option.splits dest!: Cons.IH)
qed

lemma result_consumer_registry:
  "result_consumer w p m st = (out, st') \<Longrightarrow> models_dict st' = models_dict st"
  by (auto simp: result_consumer_def Let_def
           split: option.splits sum.splits dest!: plot_loop_registry)

lemma local_pair_registry:
  "local_pair w mn m wd g st = (out, st') \<Longrightarrow> models_dict st' = models_dict st"
  by (auto simp: local_pair_def Let_def
           split: option.splits sum.splits dest!: result_consumer_registry)

lemma local_methods_registry:
  "local_methods w mn m wd gs st = (out, st') \<Longrightarrow> models_dict st' = models_dict st"
proof (induction gs arbitrary: st)
  case Nil
  then show ?case by simp
next
  case (Cons g gs)
  from Cons.prems show ?case
    by (auto split: prod.splits outcome.splits dest!: local_pair_registry Cons.IH)
qed

lemma local_driver_registry:
  "local_driver w mns gs st = (out, st') \<Longrightarrow> models_dict st' = models_dict st"
proof (induction mns arbitrary: st)
  case Nil
  then show ?case by simp
next
  case (Cons mn mns)
  from Cons.prems show ?case
    by (auto simp: Let_def split: prod.splits outcome.splits option.splits
             dest!: ensure_dir_registry local_methods_registry Cons.IH)
qed

lemma problem_per_worker_registry:
  "problem_per_worker w ud args st = (r, st') \<Longrightarrow> models_dict st' = models_dict st"
  by (auto simp: problem_per_worker_def Let_def split: if_splits sum.splits)

lemma dask_pair_registry:
  "dask_pair w ud mn m wd g st = (out, st') \<Longrightarrow> models_dict st' = models_dict st"
  by (auto simp: dask_pair_def Let_def
           split: option.splits sum.splits prod.splits if_splits
           dest!: problem_per_worker_registry)

lemma dask_methods_registry:
  "dask_methods w ud mn m wd gs st = (out, st') \<Longrightarrow> models_dict st' = models_dict st"
proof (induction gs arbitrary: st)
  case Nil
  then show ?case by simp
next
  case (Cons g gs)
  from Cons.prems show ?case
    by (auto split: prod.splits outcome.splits dest!: dask_pair_registry Cons.IH)
qed

lemma dask_models_registry:
  "dask_models w ud mns gs st = (out, st') \<Longrightarrow> models_dict st' = models_dict st"
proof (induction mns arbitrary: st)
  case Nil
  then show ?case by simp
next
  case (Cons mn mns)
  from Cons.prems show ?case
    by (auto simp: Let_def split: prod.splits outcome.splits option.splits
             dest!: ensure_dir_registry dask_methods_registry Cons.IH)
qed

lemma dask_driver_registry:
  "dask_driver w ud mns gs st = (out, st') \<Longrightarrow> models_dict st' = models_dict st"
  by (auto simp: dask_driver_def Let_def split: if_splits dest!: dask_models_registry)

lemma workers_cell_registry:
  "workers_cell w pc st = (out, st') \<Longrightarrow> models_dict st' = models_dict st"
  by (auto simp: workers_cell_def Let_def
           split: if_splits option.splits prod.splits outcome.splits
           dest!: ensure_dir_registry)

lemma client_cell_registry:
  "client_cell w st = (out, st') \<Longrightarrow> models_dict st' = models_dict st"
  by (auto simp: client_cell_def Let_def split: option.splits)

lemma scale_cell_registry:
  "scale_cell w mns gs st = (out, st') \<Longrightarrow> models_dict st' = models_dict st"
  by (auto simp: scale_cell_def Let_def split: option.splits)

lemma run_tasks_registry:
  "run_tasks w ts st = (out, st') \<Longrightarrow> models_dict st' = models_dict st"
proof (induction w ts st rule: run_tasks.induct)
  case (1 w st)
  then show ?case by simp
next
  case (2 w p ts st)
  then show ?case by simp
next
  case (3 w args ts st)
  from "3.prems" show ?case
    by (auto simp: Let_def split: sum.splits dest!: "3.IH" [rotated -1])
qed

lemma compute_cell_registry:
  "compute_cell w st = (out, st') \<Longrightarrow> models_dict st' = models_dict st"
  by (auto simp: compute_cell_def Let_def dest!: run_tasks_registry)

lemma notebook_dask_registry:
  "notebook_dask w ud pc mns gs st = (out, st') \<Longrightarrow> models_dict st' = models_dict st"
  by (erule notebook_dask_cases)
     (auto dest!: dask_driver_registry workers_cell_registry client_cell_registry
                  scale_cell_registry compute_cell_registry)


subsection \<open>Exceptions are not caught\<close>

lemma quiet_Nil [simp]: "quiet []"
  by (simp add: quiet_def)

lemma quiet_Cons [simp]: "quiet (e # es) \<longleftrightarrow> exn_of e = None \<and> quiet es"
  by (simp add: quiet_def)

lemma quiet_append [simp]: "quiet (a @ b) \<longleftrightarrow> quiet a \<and> quiet b"
  by (simp add: quiet_def)

lemma quiet_last: "quiet a \<Longrightarrow> a \<noteq> [] \<Longrightarrow> exn_of (last a) = None"
  by (induction a) (auto split: if_splits)

declare propagated.simps [simp del]

lemma propagated_Normal [simp]: "propagated Normal evs = quiet evs"
  by (simp add: propagated.simps)

lemma propagated_after_quiet:
  assumes "quiet a"
  shows "propagated out (a @ b) = propagated out b"
proof (cases out)
  case Normal
  with assms show ?thesis by simp
next
  case (Raised x)
  show ?thesis
  proof (cases "b = []")
    case True
    with assms Raised quiet_last [of a] show ?thesis by (auto simp: propagated.simps)
  next
    case False
    with assms Raised show ?thesis by (simp add: butlast_append propagated.simps)
  qed
qed

lemma propagated_Cons [simp]:
  "exn_of e = None \<Longrightarrow> propagated out (e # N) = propagated out N"
  using propagated_after_quiet [of "[e]" out N] by simp

lemma propagated_Nil [simp]:
  "propagated out [] \<longleftrightarrow> (case out of Normal \<Rightarrow> True | Raised x \<Rightarrow> own_exn x)"
  by (cases out) (auto simp: propagated.simps)

lemma propagated_last [simp]: "exn_of e = Some x \<Longrightarrow> propagated (Raised x) [e]"
  by (simp add: propagated.simps)

lemma ensure_dir_uncaught:
  "ensure_dir w p st = (out, st') \<Longrightarrow> \<exists>N. trace st' = trace st @ N \<and> propagated out N"
  by (auto simp: ensure_dir_def Let_def split: option.splits if_splits)

lemma plot_loop_uncaught:
  "plot_loop w p m res st = (out, st') \<Longrightarrow> \<exists>N. trace st' = trace st @ N \<and> propagated out N"
proof (induction res arbitrary: st)
  case Nil
  then show ?case by auto
next
  case (Cons nv res)
  obtain name vals where nv: "nv = (name, vals)" by (cases nv)
  from Cons.prems show ?case
    by (auto simp: nv Let_def split: option.splits dest!: Cons.IH)
qed

lemma result_consumer_uncaught:
  "result_consumer w p m st = (out, st') \<Longrightarrow> \<exists>N. trace st' = trace st @ N \<and> propagated out N"
  by (auto simp: result_consumer_def Let_def
           split: option.splits sum.splits dest!: plot_loop_uncaught)

lemma local_pair_uncaught:
  "local_pair w mn m wd g st = (out, st') \<Longrightarrow> \<exists>N. trace st' = trace st @ N \<and> propagated out N"
  by (auto simp: local_pair_def Let_def
           split: option.splits sum.splits dest!: result_consumer_uncaught)

lemma local_methods_uncaught:
  "local_methods w mn m wd gs st = (out, st') \<Longrightarrow> \<exists>N. trace st' = trace st @ N \<and> propagated out N"
proof (induction gs arbitrary: st)
  case Nil
  then show ?case by auto
next
  case (Cons g gs)
  from Cons.prems show ?case
    by (auto simp: propagated_after_quiet split: prod.splits outcome.splits
             dest!: local_pair_uncaught Cons.IH)
qed

lemma local_driver_uncaught:
  "local_driver w mns gs st = (out, st') \<Longrightarrow> \<exists>N. trace st' = trace st @ N \<and> propagated out N"
proof (induction mns arbitrary: st)
  case Nil
  then show ?case by auto
next
  case (Cons mn mns)
  from Cons.prems show ?case
    by (auto simp: Let_def propagated_after_quiet
             split: prod.splits outcome.splits option.splits
             dest!: ensure_dir_uncaught local_methods_uncaught Cons.IH)
qed


lemma problem_per_worker_uncaught:
  "problem_per_worker w ud args st = (r, st') \<Longrightarrow>
   \<exists>N. trace st' = trace st @ N
     \<and> propagated (case r of Inl e \<Rightarrow> Raised e | Inr t \<Rightarrow> Normal) N"
  by (auto simp: problem_per_worker_def Let_def split: if_splits sum.splits)

lemma dask_pair_uncaught:
  "dask_pair w ud mn m wd g st = (out, st') \<Longrightarrow> \<exists>N. trace st' = trace st @ N \<and> propagated out N"
  by (auto simp: dask_pair_def Let_def
           split: option.splits sum.splits prod.splits if_splits
           dest!: problem_per_worker_uncaught)

lemma dask_methods_uncaught:
  "dask_methods w ud mn m wd gs st = (out, st') \<Longrightarrow> \<exists>N. trace st' = trace st @ N \<and> propagated out N"
proof (induction gs arbitrary: st)
  case Nil
  then show ?case by auto
next
  case (Cons g gs)
  from Cons.prems show ?case
    by (auto simp: propagated_after_quiet split: prod.splits outcome.splits
             dest!: dask_pair_uncaught Cons.IH)
qed

lemma dask_models_uncaught:
  "dask_models w ud mns gs st = (out, st') \<Longrightarrow> \<exists>N. trace st' = trace st @ N \<and> propagated out N"
proof (induction mns arbitrary: st)
  case Nil
  then show ?case by auto
next
  case (Cons mn mns)
  from Cons.prems show ?case
    by (auto simp: Let_def propagated_after_quiet
             split: prod.splits outcome.splits option.splits
             dest!: ensure_dir_uncaught dask_methods_uncaught Cons.IH)
qed

lemma dask_driver_uncaught:
  "dask_driver w ud mns gs st = (out, st') \<Longrightarrow> \<exists>N. trace st' = trace st @ N \<and> propagated out N"
  by (auto simp: dask_driver_def Let_def split: if_splits dest!: dask_models_uncaught)

subsection \<open>Which Problems are constructed\<close>

lemma constructions_append [simp]:
  "constructions (a @ b) = constructions a @ constructions b"
  by (induction a rule: constructions.induct) auto

lemma descriptors_append [simp]:
  "descriptors (a @ b) = descriptors a @ descriptors b"
  by (induction a rule: descriptors.induct) auto

lemma deferred_args_append [simp]:
  "deferred_args (a @ b) = deferred_args a @ deferred_args b"
  by (induction a rule: deferred_args.induct) auto

lemma progress_Normal [simp]: "progress Normal xs plan \<longleftrightarrow> xs = plan"
  by (simp add: progress_def)

lemma progress_Raised [simp]: "progress (Raised e) xs plan \<longleftrightarrow> prefix xs plan"
  by (simp add: progress_def)

lemma progress_refl [simp]: "progress out xs xs"
  by (cases out) auto

lemma progress_Cons [simp]: "progress out (x # xs) (x # plan) \<longleftrightarrow> progress out xs plan"
  by (cases out) auto

lemma progress_append [simp]: "progress out (ys @ xs) (ys @ plan) \<longleftrightarrow> progress out xs plan"
  by (cases out) auto

lemma progress_prefix: "progress out xs plan \<Longrightarrow> prefix xs plan"
  by (cases out) auto

lemma progress_map: "progress out xs plan \<Longrightarrow> progress out (map h xs) (map h plan)"
  by (cases out) (auto simp: map_mono_prefix)

lemma progress_more: "progress (Raised e) xs plan \<Longrightarrow> progress (Raised e) xs (plan @ extra)"
  by (simp add: prefix_prefix)

lemma planned_Nil [simp]: "planned mk reg [] gs = []"
  by (simp add: planned_def)

lemma planned_Cons:
  "planned mk reg (mn # mns) gs =
     map (\<lambda>g. map_option (\<lambda>cfg. mk cfg g) (map_of reg mn)) gs @ planned mk reg mns gs"
  by (simp add: planned_def comp_def)

lemma planned_map:
  "map (map_option h) (planned mk reg mns gs) = planned (\<lambda>cfg g. h (mk cfg g)) reg mns gs"
  by (simp add: planned_def comp_def case_prod_unfold option.map_comp)

lemma length_planned [simp]: "length (planned mk reg mns gs) = length mns * length gs"
  by (simp add: planned_def length_product)

lemma ensure_dir_plan:
  "ensure_dir w p st = (out, st') \<Longrightarrow>
   \<exists>N. trace st' = trace st @ N \<and> models_dict st' = models_dict st
     \<and> constructions N = [] \<and> descriptors N = [] \<and> model_evals st' = model_evals st"
  by (auto simp: ensure_dir_def Let_def split: option.splits if_splits)

lemma plot_loop_plan:
  "plot_loop w p m res st = (out, st') \<Longrightarrow>
   \<exists>N. trace st' = trace st @ N \<and> models_dict st' = models_dict st \<and> constructions N = []"
proof (induction res arbitrary: st)
  case Nil
  then show ?case by auto
next
  case (Cons nv res)
  obtain name vals where nv: "nv = (name, vals)" by (cases nv)
  from Cons.prems show ?case
    by (auto simp: nv Let_def split: option.splits dest!: Cons.IH)
qed

lemma result_consumer_plan:
  "result_consumer w p m st = (out, st') \<Longrightarrow>
   \<exists>N. trace st' = trace st @ N \<and> models_dict st' = models_dict st \<and> constructions N = []"
  by (auto simp: result_consumer_def Let_def
           split: option.splits sum.splits dest!: plot_loop_plan)

lemma local_pair_plan:
  "local_pair w mn (entry_model cfg) (entry_write_dir cfg) g st = (out, st') \<Longrightarrow>
   map_of (models_dict st) mn = Some cfg \<Longrightarrow>
   \<exists>N. trace st' = trace st @ N \<and> models_dict st' = models_dict st
     \<and> progress out (constructions N) [spec_local_args cfg g]"
  by (auto simp: local_pair_def Let_def spec_local_args_def
           split: option.splits sum.splits dest!: result_consumer_plan)

lemma local_methods_plan:
  "local_methods w mn (entry_model cfg) (entry_write_dir cfg) gs st = (out, st') \<Longrightarrow>
   map_of (models_dict st) mn = Some cfg \<Longrightarrow>
   \<exists>N. trace st' = trace st @ N \<and> models_dict st' = models_dict st
     \<and> progress out (constructions N) (map (spec_local_args cfg) gs)"
proof (induction gs arbitrary: st)
  case Nil
  then show ?case by auto
next
  case (Cons g gs)
  show ?case
  proof (cases "local_pair w mn (entry_model cfg) (entry_write_dir cfg) g st")
    case (Pair o1 s1)
    from local_pair_plan [OF Pair Cons.prems(2)] obtain N1 where
      N1: "trace s1 = trace st @ N1" "models_dict s1 = models_dict st"
          "progress o1 (constructions N1) [spec_local_args cfg g]"
      by blast
    show ?thesis
    proof (cases o1)
      case (Raised e)
      with Pair Cons.prems(1) have "out = Raised e" "st' = s1" by auto
      with N1 Raised show ?thesis
        using progress_more [of e "constructions N1" "[spec_local_args cfg g]"
                "map (spec_local_args cfg) gs"]
        by auto
    next
      case Normal
      with Pair Cons.prems(1)
      have rest: "local_methods w mn (entry_model cfg) (entry_write_dir cfg) gs s1 = (out, st')"
        by simp
      from Cons.IH [OF rest] N1(2) Cons.prems(2) obtain N2 where
        N2: "trace st' = trace s1 @ N2" "models_dict st' = models_dict s1"
            "progress out (constructions N2) (map (spec_local_args cfg) gs)"
        by auto
      from N1 N2 Normal show ?thesis by auto
    qed
  qed
qed

lemma local_driver_plan:
  "local_driver w mns gs st = (out, st') \<Longrightarrow>
   \<exists>N. trace st' = trace st @ N \<and> models_dict st' = models_dict st
     \<and> progress out (map Some (constructions N)) (planned spec_local_args (models_dict st) mns gs)"
proof (induction mns arbitrary: st)
  case Nil
  then show ?case by auto
next
  case (Cons mn mns)
  let ?st1 = "emit (Print (CHR 0x0A # ''>>> '' @ mn)) (st\<lparr>model_name := Some mn\<rparr>)"
  show ?case
  proof (cases "map_of (models_dict st) mn")
    case None
    with Cons.prems show ?thesis by (auto simp: Let_def)
  next
    case (Some cfg)
    let ?st2 = "?st1\<lparr>v_model := Some (entry_model cfg), v_write_dir := Some (entry_write_dir cfg)\<rparr>"
    let ?plan1 = "map (spec_local_args cfg) gs"
    have plan: "planned spec_local_args (models_dict st) (mn # mns) gs
                = map Some ?plan1 @ planned spec_local_args (models_dict st) mns gs"
      by (simp add: planned_Cons Some)
    obtain o3 s3 where e3: "ensure_dir w (entry_write_dir cfg) ?st2 = (o3, s3)"
      by (cases "ensure_dir w (entry_write_dir cfg) ?st2")
    from ensure_dir_plan [OF e3] obtain N3 where
      N3: "trace s3 = trace st @ Print (CHR 0x0A # ''>>> '' @ mn) # N3"
          "models_dict s3 = models_dict st" "constructions N3 = []"
      by auto
    show ?thesis
    proof (cases o3)
      case (Raised e)
      with e3 Some Cons.prems have "out = Raised e" "st' = s3" by (auto simp: Let_def)
      with N3 show ?thesis by (auto simp: plan)
    next
      case Normal
      note o3 = this
      obtain o4 s4 where e4:
        "local_methods w mn (entry_model cfg) (entry_write_dir cfg) gs s3 = (o4, s4)"
        by (cases "local_methods w mn (entry_model cfg) (entry_write_dir cfg) gs s3")
      from local_methods_plan [OF e4] Some N3(2) obtain N4 where
        N4: "trace s4 = trace s3 @ N4" "models_dict s4 = models_dict s3"
            "progress o4 (constructions N4) ?plan1"
        by auto
      show ?thesis
      proof (cases o4)
        case (Raised e)
        with e3 e4 o3 Some Cons.prems have "out = Raised e" "st' = s4" by (auto simp: Let_def)
        moreover from N4(3) Raised
        have "prefix (constructions N4) ?plan1" by simp
        then have "prefix (map Some (constructions N4)) (map Some ?plan1)"
          by (rule map_mono_prefix)
        then have "prefix (map Some (constructions N4))
                     (planned spec_local_args (models_dict st) (mn # mns) gs)"
          unfolding plan by (rule prefix_prefix)
        ultimately show ?thesis using N3 N4 by auto
      next
        case Normal
        with e3 e4 o3 Some Cons.prems have rest: "local_driver w mns gs s4 = (out, st')"
          by (auto simp: Let_def)
        from Cons.IH [OF rest] N4(2) N3(2) obtain N5 where
          N5: "trace st' = trace s4 @ N5" "models_dict st' = models_dict st"
              "progress out (map Some (constructions N5))
                 (planned spec_local_args (models_dict st) mns gs)"
          by auto
        from N3 N4 N5 Normal show ?thesis by (auto simp: plan)
      qed
    qed
  qed
qed


lemma problem_per_worker_plan:
  "problem_per_worker w ud args st = (r, st') \<Longrightarrow>
   \<exists>N. trace st' = trace st @ N \<and> models_dict st' = models_dict st
     \<and> model_evals st' = model_evals st
     \<and> descriptors N = [args]
     \<and> constructions N = (if ud then [] else [args])
     \<and> (case r of Inl e \<Rightarrow> \<not> ud
         | Inr t \<Rightarrow> deferred_args [t] = (if ud then [args] else []))"
  by (auto simp: problem_per_worker_def Let_def split: if_splits sum.splits)

lemma dask_pair_plan:
  "dask_pair w ud mn (entry_model cfg) (entry_write_dir cfg) g st = (out, st') \<Longrightarrow>
   map_of (models_dict st) mn = Some cfg \<Longrightarrow>
   \<exists>N. trace st' = trace st @ N \<and> models_dict st' = models_dict st
     \<and> progress out (descriptors N) [spec_dask_args cfg g]
     \<and> constructions N = (if ud then [] else descriptors N)
     \<and> deferred_args (model_evals st')
         = deferred_args (model_evals st) @ (if ud then descriptors N else [])
     \<and> (out = Normal \<longrightarrow> length (model_evals st') = Suc (length (model_evals st)))"
proof -
  assume run: "dask_pair w ud mn (entry_model cfg) (entry_write_dir cfg) g st = (out, st')"
    and reg: "map_of (models_dict st) mn = Some cfg"
  let ?its = "spec_iterations cfg g"
  let ?st1 = "emit (Print (''--- '' @ g @ '' -> '' @ str_int (num_params (entry_model cfg))
                     @ '' parameters, '' @ str_iterations ?its @ '' iterations''))
                (st\<lparr>gsa_method := Some g, v_iterations := Some ?its\<rparr>)"
  let ?args = "spec_dask_args cfg g"
  obtain r s2 where ppw: "problem_per_worker w ud ?args ?st1 = (r, s2)"
    by (cases "problem_per_worker w ud ?args ?st1")
  from problem_per_worker_plan [OF ppw] obtain N where
    N: "trace s2 = trace ?st1 @ N" "models_dict s2 = models_dict st"
       "model_evals s2 = model_evals st" "descriptors N = [?args]"
       "constructions N = (if ud then [] else [?args])"
       "case r of Inl e \<Rightarrow> \<not> ud | Inr t \<Rightarrow> deferred_args [t] = (if ud then [?args] else [])"
    by auto
  have unfold: "dask_pair w ud mn (entry_model cfg) (entry_write_dir cfg) g st
      = (case r of Inl e \<Rightarrow> (Raised e, s2)
         | Inr t \<Rightarrow> (Normal, s2\<lparr>problem := Some t, model_evals := model_evals s2 @ [t]\<rparr>))"
  proof (cases "g = ''eFAST_indices''")
    case True
    with reg ppw show ?thesis
      by (simp add: dask_pair_def Let_def spec_dask_args_def spec_iterations_def)
  next
    case False
    note not_efast = this
    show ?thesis
    proof (cases "g = ''correlation_coefficients''")
      case True
      with reg ppw show ?thesis
        by (simp add: dask_pair_def Let_def spec_dask_args_def spec_iterations_def)
    next
      case False
      with not_efast reg ppw show ?thesis
        by (simp add: dask_pair_def Let_def spec_dask_args_def spec_iterations_def)
    qed
  qed
  show ?thesis
  proof (cases r)
    case (Inl e)
    with unfold run have "out = Raised e" "st' = s2" by auto
    with N Inl show ?thesis by auto
  next
    case (Inr t)
    with unfold run have "out = Normal"
      "st' = s2\<lparr>problem := Some t, model_evals := model_evals s2 @ [t]\<rparr>" by auto
    with N Inr show ?thesis by auto
  qed
qed

lemma dask_methods_plan:
  "dask_methods w ud mn (entry_model cfg) (entry_write_dir cfg) gs st = (out, st') \<Longrightarrow>
   map_of (models_dict st) mn = Some cfg \<Longrightarrow>
   \<exists>N. trace st' = trace st @ N \<and> models_dict st' = models_dict st
     \<and> progress out (descriptors N) (map (spec_dask_args cfg) gs)
     \<and> constructions N = (if ud then [] else descriptors N)
     \<and> deferred_args (model_evals st')
         = deferred_args (model_evals st) @ (if ud then descriptors N else [])
     \<and> (out = Normal \<longrightarrow> length (model_evals st') = length (model_evals st) + length gs)"
proof (induction gs arbitrary: st)
  case Nil
  then show ?case by auto
next
  case (Cons g gs)
  show ?case
  proof (cases "dask_pair w ud mn (entry_model cfg) (entry_write_dir cfg) g st")
    case (Pair o1 s1)
    from dask_pair_plan [OF Pair Cons.prems(2)] obtain N1 where
      N1: "trace s1 = trace st @ N1" "models_dict s1 = models_dict st"
          "progress o1 (descriptors N1) [spec_dask_args cfg g]"
          "constructions N1 = (if ud then [] else descriptors N1)"
          "deferred_args (model_evals s1)
             = deferred_args (model_evals st) @ (if ud then descriptors N1 else [])"
          "o1 = Normal \<longrightarrow> length (model_evals s1) = Suc (length (model_evals st))"
      by blast
    show ?thesis
    proof (cases o1)
      case (Raised e)
      with Pair Cons.prems(1) have "out = Raised e" "st' = s1" by auto
      with N1 Raised show ?thesis
        using progress_more [of e "descriptors N1" "[spec_dask_args cfg g]"
                "map (spec_dask_args cfg) gs"]
        by auto
    next
      case Normal
      with Pair Cons.prems(1)
      have rest: "dask_methods w ud mn (entry_model cfg) (entry_write_dir cfg) gs s1 = (out, st')"
        by simp
      from Cons.IH [OF rest] N1(2) Cons.prems(2) obtain N2 where
        N2: "trace st' = trace s1 @ N2" "models_dict st' = models_dict s1"
            "progress out (descriptors N2) (map (spec_dask_args cfg) gs)"
            "constructions N2 = (if ud then [] else descriptors N2)"
            "deferred_args (model_evals st')
               = deferred_args (model_evals s1) @ (if ud then descriptors N2 else [])"
            "out = Normal \<longrightarrow> length (model_evals st') = length (model_evals s1) + length gs"
        by auto
      from N1 N2 Normal show ?thesis by auto
    qed
  qed
qed

lemma dask_models_plan:
  "dask_models w ud mns gs st = (out, st') \<Longrightarrow>
   \<exists>N. trace st' = trace st @ N \<and> models_dict st' = models_dict st
     \<and> progress out (map Some (descriptors N)) (planned spec_dask_args (models_dict st) mns gs)
     \<and> constructions N = (if ud then [] else descriptors N)
     \<and> deferred_args (model_evals st')
         = deferred_args (model_evals st) @ (if ud then descriptors N else [])
     \<and> (out = Normal \<longrightarrow>
           length (model_evals st') = length (model_evals st) + length mns * length gs)"
proof (induction mns arbitrary: st)
  case Nil
  then show ?case by auto
next
  case (Cons mn mns)
  let ?st1 = "emit (Print (CHR 0x0A # ''>>> '' @ mn)) (st\<lparr>model_name := Some mn\<rparr>)"
  show ?case
  proof (cases "map_of (models_dict st) mn")
    case None
    with Cons.prems show ?thesis by (auto simp: Let_def)
  next
    case (Some cfg)
    let ?st2 = "?st1\<lparr>v_model := Some (entry_model cfg), v_write_dir := Some (entry_write_dir cfg)\<rparr>"
    let ?plan1 = "map (spec_dask_args cfg) gs"
    have plan: "planned spec_dask_args (models_dict st) (mn # mns) gs
                = map Some ?plan1 @ planned spec_dask_args (models_dict st) mns gs"
      by (simp add: planned_Cons Some)
    obtain o3 s3 where e3: "ensure_dir w (entry_write_dir cfg) ?st2 = (o3, s3)"
      by (cases "ensure_dir w (entry_write_dir cfg) ?st2")
    from ensure_dir_plan [OF e3] obtain N3 where
      N3: "trace s3 = trace st @ Print (CHR 0x0A # ''>>> '' @ mn) # N3"
          "models_dict s3 = models_dict st" "constructions N3 = []" "descriptors N3 = []"
          "model_evals s3 = model_evals st"
      by auto
    show ?thesis
    proof (cases o3)
      case (Raised e)
      with e3 Some Cons.prems have "out = Raised e" "st' = s3" by (auto simp: Let_def)
      with N3 show ?thesis by (auto simp: plan)
    next
      case Normal
      note o3 = this
      obtain o4 s4 where e4:
        "dask_methods w ud mn (entry_model cfg) (entry_write_dir cfg) gs s3 = (o4, s4)"
        by (cases "dask_methods w ud mn (entry_model cfg) (entry_write_dir cfg) gs s3")
      from dask_methods_plan [OF e4] Some N3(2) obtain N4 where
        N4: "trace s4 = trace s3 @ N4" "models_dict s4 = models_dict s3"
            "progress o4 (descriptors N4) ?plan1"
            "constructions N4 = (if ud then [] else descriptors N4)"
            "deferred_args (model_evals s4)
               = deferred_args (model_evals s3) @ (if ud then descriptors N4 else [])"
            "o4 = Normal \<longrightarrow> length (model_evals s4) = length (model_evals s3) + length gs"
        by auto
      show ?thesis
      proof (cases o4)
        case (Raised e)
        with e3 e4 o3 Some Cons.prems have "out = Raised e" "st' = s4" by (auto simp: Let_def)
        moreover from N4(3) Raised
        have "prefix (descriptors N4) ?plan1" by simp
        then have "prefix (map Some (descriptors N4)) (map Some ?plan1)"
          by (rule map_mono_prefix)
        then have "prefix (map Some (descriptors N4))
                     (planned spec_dask_args (models_dict st) (mn # mns) gs)"
          unfolding plan by (rule prefix_prefix)
        ultimately show ?thesis using N3 N4 by auto
      next
        case Normal
        with e3 e4 o3 Some Cons.prems have rest: "dask_models w ud mns gs s4 = (out, st')"
          by (auto simp: Let_def)
        from Cons.IH [OF rest] N4(2) N3(2) obtain N5 where
          N5: "trace st' = trace s4 @ N5" "models_dict st' = models_dict st"
              "progress out (map Some (descriptors N5))
                 (planned spec_dask_args (models_dict st) mns gs)"
              "constructions N5 = (if ud then [] else descriptors N5)"
              "deferred_args (model_evals st')
                 = deferred_args (model_evals s4) @ (if ud then descriptors N5 else [])"
              "out = Normal \<longrightarrow>
                 length (model_evals st') = length (model_evals s4) + length mns * length gs"
          by auto
        from N3 N4 N5 Normal show ?thesis by (auto simp: plan)
      qed
    qed
  qed
qed

lemma dask_driver_plan:
  "dask_driver w ud mns gs st = (out, st') \<Longrightarrow>
   \<exists>N. trace st' = trace st @ N \<and> models_dict st' = models_dict st
     \<and> progress out (map Some (descriptors N)) (planned spec_dask_args (models_dict st) mns gs)
     \<and> constructions N = (if ud then [] else descriptors N)
     \<and> deferred_args (model_evals st') = (if ud then descriptors N else [])
     \<and> (out = Normal \<longrightarrow> length (model_evals st') = length mns * length gs)"
  by (auto simp: dask_driver_def Let_def split: if_splits dest!: dask_models_plan)


subsection \<open>The cluster cells and the deferred constructions\<close>

lemma workers_cell_plan:
  "workers_cell w pc st = (out, st') \<Longrightarrow>
   \<exists>N. trace st' = trace st @ N \<and> constructions N = [] \<and> descriptors N = []
     \<and> model_evals st' = model_evals st"
  by (auto simp: workers_cell_def Let_def
           split: if_splits option.splits prod.splits outcome.splits
           dest!: ensure_dir_plan)

lemma client_cell_plan:
  "client_cell w st = (out, st') \<Longrightarrow>
   \<exists>N. trace st' = trace st @ N \<and> constructions N = [] \<and> descriptors N = []
     \<and> model_evals st' = model_evals st"
  by (auto simp: client_cell_def Let_def split: option.splits)

lemma scale_cell_plan:
  "scale_cell w mns gs st = (out, st') \<Longrightarrow>
   \<exists>N. trace st' = trace st @ N \<and> constructions N = [] \<and> descriptors N = []
     \<and> model_evals st' = model_evals st"
  by (auto simp: scale_cell_def Let_def split: option.splits)

lemma run_tasks_plan:
  "run_tasks w ts st = (out, st') \<Longrightarrow>
   \<exists>N. trace st' = trace st @ N \<and> progress out (constructions N) (deferred_args ts)
     \<and> descriptors N = constructions N"
proof (induction w ts st rule: run_tasks.induct)
  case (1 w st)
  then show ?case by auto
next
  case (2 w p ts st)
  then show ?case by simp
next
  case (3 w args ts st)
  from "3.prems" show ?case
    by (auto simp: Let_def split: sum.splits dest!: "3.IH" [rotated -1])
qed

lemma distinct_sched_order: "distinct (sched_order s n)"
  by (auto simp: sched_order_def)

lemma set_sched_order: "set (sched_order s n) = {0..<n}"
  by (auto simp: sched_order_def)

lemma mset_sched_order: "mset (sched_order s n) = mset_set {0..<n}"
  using mset_set_set [OF distinct_sched_order, of s n]
  by (simp add: set_sched_order)

lemma mset_deferred_args:
  "mset (deferred_args ts)
   = (\<Sum>t\<in>#mset ts. case t of Deferred a \<Rightarrow> {#a#} | Evaluated p \<Rightarrow> {#})"
  by (induction ts rule: deferred_args.induct) auto

lemma mset_scheduled:
  assumes "mset order = mset_set {0..<length ts}"
  shows "mset (deferred_args (map (\<lambda>i. ts ! i) order)) = mset (deferred_args ts)"
proof -
  have "mset (map (\<lambda>i. ts ! i) order) = image_mset (\<lambda>i. ts ! i) (mset order)"
    by simp
  also have "\<dots> = image_mset (\<lambda>i. ts ! i) (mset [0..<length ts])"
    using assms by simp
  also have "\<dots> = mset (map (\<lambda>i. ts ! i) [0..<length ts])"
    by (simp only: mset_map)
  also have "\<dots> = mset ts"
    by (simp only: map_nth)
  finally show ?thesis
    by (simp add: mset_deferred_args)
qed




subsection \<open>Every descriptor comes from the plan\<close>

lemma planned_member:
  "Some x \<in> set (planned mk reg mns gs) \<Longrightarrow> \<exists>cfg g. x = mk cfg g"
  by (force simp: planned_def map_option_case split: option.splits)

lemma prefix_planned_all:
  assumes "prefix (map Some xs) (planned mk reg mns gs)" and "\<And>cfg g. P (mk cfg g)"
  shows "list_all P xs"
proof -
  have "P x" if "x \<in> set xs" for x
  proof -
    from that have "Some x \<in> set (map Some xs)" by simp
    with set_mono_prefix [OF assms(1)] have "Some x \<in> set (planned mk reg mns gs)" by blast
    from planned_member [OF this] assms(2) show ?thesis by auto
  qed
  then show ?thesis by (simp add: list_all_iff)
qed

lemma compute_cell_any:
  "compute_cell w st = (out, st') \<Longrightarrow>
   \<exists>N. trace st' = trace st @ N
     \<and> set (constructions N) \<subseteq> set (deferred_args (model_evals st))"
proof -
  assume run: "compute_cell w st = (out, st')"
  let ?ts = "model_evals st"
  let ?st1 = "emit (Compute (length ?ts)) st"
  let ?order = "sched_order (schedule w (trace ?st1) (length ?ts)) (length ?ts)"
  from run have "run_tasks w (map (\<lambda>i. ?ts ! i) ?order) ?st1 = (out, st')"
    by (simp add: compute_cell_def Let_def)
  from run_tasks_plan [OF this] obtain N where
    N: "trace st' = trace ?st1 @ N"
       "progress out (constructions N) (deferred_args (map (\<lambda>i. ?ts ! i) ?order))"
    by auto
  have "mset (deferred_args (map (\<lambda>i. ?ts ! i) ?order)) = mset (deferred_args ?ts)"
    by (rule mset_scheduled) (rule mset_sched_order)
  then have "set (deferred_args (map (\<lambda>i. ?ts ! i) ?order)) = set (deferred_args ?ts)"
    by (rule mset_eq_setD)
  with set_mono_prefix [OF progress_prefix [OF N(2)]]
  have "set (constructions N) \<subseteq> set (deferred_args ?ts)" by simp
  with N(1) show ?thesis by auto
qed

lemma notebook_dask_constructed:
  assumes "notebook_dask w ud pc mns gs st = (out, st')"
  shows "\<exists>N D. trace st' = trace st @ N
           \<and> prefix (map Some D) (planned spec_dask_args (models_dict st) mns gs)
           \<and> set (constructions N) \<subseteq> set D"
proof -
  have drv: "\<exists>N D. trace s1 = trace st @ N
           \<and> prefix (map Some D) (planned spec_dask_args (models_dict st) mns gs)
           \<and> set (constructions N) \<subseteq> set D \<and> set (deferred_args (model_evals s1)) \<subseteq> set D"
    if "dask_driver w ud mns gs st = (o1, s1)" for o1 s1
  proof -
    from dask_driver_plan [OF that] obtain N1 where
      N1: "trace s1 = trace st @ N1"
          "progress o1 (map Some (descriptors N1)) (planned spec_dask_args (models_dict st) mns gs)"
          "constructions N1 = (if ud then [] else descriptors N1)"
          "deferred_args (model_evals s1) = (if ud then descriptors N1 else [])"
      by auto
    from N1(3,4) have "set (constructions N1) \<subseteq> set (descriptors N1)"
      "set (deferred_args (model_evals s1)) \<subseteq> set (descriptors N1)" by auto
    with N1(1) progress_prefix [OF N1(2)] show ?thesis by blast
  qed
  have cell: "\<exists>N D. trace s2 = trace st @ N
           \<and> prefix (map Some D) (planned spec_dask_args (models_dict st) mns gs)
           \<and> set (constructions N) \<subseteq> set D \<and> set (deferred_args (model_evals s2)) \<subseteq> set D"
    if prev: "\<exists>N D. trace s1 = trace st @ N
           \<and> prefix (map Some D) (planned spec_dask_args (models_dict st) mns gs)
           \<and> set (constructions N) \<subseteq> set D \<and> set (deferred_args (model_evals s1)) \<subseteq> set D"
      and step: "\<exists>N. trace s2 = trace s1 @ N \<and> constructions N = [] \<and> descriptors N = []
           \<and> model_evals s2 = model_evals s1"
    for s1 s2
  proof -
    from prev obtain N D where
      ND: "trace s1 = trace st @ N"
          "prefix (map Some D) (planned spec_dask_args (models_dict st) mns gs)"
          "set (constructions N) \<subseteq> set D" "set (deferred_args (model_evals s1)) \<subseteq> set D"
      by blast
    from step obtain M where
      M: "trace s2 = trace s1 @ M" "constructions M = []" "model_evals s2 = model_evals s1"
      by blast
    have "trace s2 = trace st @ (N @ M)" by (simp add: ND(1) M(1))
    moreover have "set (constructions (N @ M)) \<subseteq> set D" using ND(3) M(2) by simp
    moreover have "set (deferred_args (model_evals s2)) \<subseteq> set D" using ND(4) M(3) by simp
    ultimately show ?thesis using ND(2) by blast
  qed
  have weaken: "\<exists>N D. trace s = trace st @ N
           \<and> prefix (map Some D) (planned spec_dask_args (models_dict st) mns gs)
           \<and> set (constructions N) \<subseteq> set D"
    if "\<exists>N D. trace s = trace st @ N
           \<and> prefix (map Some D) (planned spec_dask_args (models_dict st) mns gs)
           \<and> set (constructions N) \<subseteq> set D \<and> set (deferred_args (model_evals s)) \<subseteq> set D"
    for s
    using that by blast
  from assms show ?thesis
  proof (cases rule: notebook_dask_cases)
    case (driver e)
    show ?thesis by (rule weaken [OF drv [OF driver(1)]])
  next
    case (workers e s1)
    show ?thesis
      by (rule weaken [OF cell [OF drv [OF workers(1)] workers_cell_plan [OF workers(2)]]])
  next
    case (client e s1 s2)
    show ?thesis
      by (rule weaken [OF cell [OF cell [OF drv [OF client(1)]
            workers_cell_plan [OF client(2)]] client_cell_plan [OF client(3)]]])
  next
    case (scale e s1 s2 s3)
    show ?thesis
      by (rule weaken [OF cell [OF cell [OF cell [OF drv [OF scale(1)]
            workers_cell_plan [OF scale(2)]] client_cell_plan [OF scale(3)]]
            scale_cell_plan [OF scale(4)]]])
  next
    case (compute s1 s2 s3 s4)
    from cell [OF cell [OF cell [OF drv [OF compute(1)]
            workers_cell_plan [OF compute(2)]] client_cell_plan [OF compute(3)]]
            scale_cell_plan [OF compute(4)]]
    obtain N D where
      ND: "trace s4 = trace st @ N"
          "prefix (map Some D) (planned spec_dask_args (models_dict st) mns gs)"
          "set (constructions N) \<subseteq> set D" "set (deferred_args (model_evals s4)) \<subseteq> set D"
      by blast
    from compute_cell_any [OF compute(5)] obtain M where
      M: "trace st' = trace s4 @ M"
         "set (constructions M) \<subseteq> set (deferred_args (model_evals s4))"
      by blast
    have "trace st' = trace st @ (N @ M)" by (simp add: ND(1) M(1))
    moreover have "set (constructions (N @ M)) \<subseteq> set D" using ND(3,4) M(2) by auto
    ultimately show ?thesis using ND(2) by blast
  qed
qed


subsection \<open>Output directories\<close>

lemma replay_dirs_append [simp]:
  "replay_dirs D (a @ b) = replay_dirs (replay_dirs D a) b"
  by (induction D a rule: replay_dirs.induct) auto

lemma writes_guarded_append [simp]:
  "writes_guarded D (a @ b) \<longleftrightarrow> writes_guarded D a \<and> writes_guarded (replay_dirs D a) b"
proof (induction D a rule: writes_guarded.induct)
  case (3 D p r es)
  then show ?case by (cases r) auto
qed auto





















subsection \<open>The calls of one pair\<close>


lemma loaded_after_Nil [simp]: "loaded_after bound [] = bound"
  by (simp add: loaded_after_def)

lemma loaded_after_Cons [simp]:
  "loaded_after bound ((a, p, fn, res) # blocks) = loaded_after (Some res) blocks"
  by (simp add: loaded_after_def)

lemma loaded_after_append [simp]:
  "loaded_after bound (xs @ ys) = loaded_after (loaded_after bound xs) ys"
  by (induction xs arbitrary: bound) auto








section \<open>Concrete runs\<close>

lemmas run_defs =
  local_kernel_def dask_kernel_def fresh_kernel_def calm_world_def stormy_world_def
  models_dict_local_def models_dict_dask_def demo_lca_def demo_moon_def demo_morris_def
  demo_SL_def demo_results_def local_pair_def result_consumer_def ensure_dir_def emit_def
  dask_pair_def problem_per_worker_def dask_driver_def Let_def
  write_dir_lca_def write_dir_moon_def write_dir_morris_def write_dir_SL_def path_base_def

lemma recorded_local_run:
  "fst (local_driver calm_world [''morris'', ''sobol_levitan'']
     [''correlation_coefficients'', ''sobol_indices'', ''eFAST_indices'', ''xgboost'']
     local_kernel) = Normal"
  by (simp add: run_defs)


lemma deferred_dask_run:
  "fst (dask_driver calm_world True [''lca'', ''morris'']
     [''correlation_coefficients'', ''eFAST_indices'', ''xgboost''] dask_kernel) = Normal"
  by (simp add: run_defs)






lemma stormy_local_run:
  "fst (local_driver stormy_world [''morris'', ''sobol_levitan'']
     [''correlation_coefficients'', ''sobol_indices'', ''xgboost''] local_kernel)
   = Raised (Exception ''ValueError'')"
  by (simp add: run_defs)

lemma stormy_local_constructions:
  "map interpreter (constructions
     (trace (snd (local_driver stormy_world [''morris'', ''sobol_levitan'']
        [''correlation_coefficients'', ''sobol_indices'', ''xgboost''] local_kernel))))
   = [''correlation_coefficients'', ''sobol_indices'']"
  by (simp add: run_defs)

lemma calm_again_run:
  "fst (local_driver calm_world [''morris'', ''sobol_levitan'']
     [''correlation_coefficients'', ''sobol_indices'', ''eFAST_indices'', ''xgboost'']
     (emit (Print ''again'') local_kernel)) = Normal"
  by (simp add: run_defs)

lemma eager_dask_run:
  "fst (dask_driver calm_world False [''lca'', ''morris'']
     [''correlation_coefficients'', ''eFAST_indices'', ''xgboost''] dask_kernel) = Normal"
  by (simp add: run_defs)

lemma local_kernel_fields [simp]:
  "trace local_kernel = []" "dirs local_kernel = {}"
  "models_dict local_kernel = models_dict_local demo_lca demo_moon demo_morris demo_SL"
  "sa_results local_kernel = None"
  by (simp_all add: local_kernel_def fresh_kernel_def)

lemma dask_kernel_fields [simp]:
  "trace dask_kernel = []" "dirs dask_kernel = {}"
  "models_dict dask_kernel = models_dict_dask demo_lca demo_moon demo_morris demo_SL"
  "model_evals dask_kernel = []"
  by (simp_all add: dask_kernel_def fresh_kernel_def)

lemma since_Nil [simp]: "since [] t = t"
  by (simp add: since_def)

lemma again_kernel_fields:
  "models_dict (emit (Print ''again'') local_kernel) = models_dict local_kernel"
  "trace (emit (Print ''again'') local_kernel) = [Print ''again'']"
  by simp_all




text \<open>
  The two runs recorded in the notebooks print what the notebooks show as their output
  (the lines that the framework itself prints apart).
\<close>

lemma recorded_dask_output:
  "trace (snd (dask_driver calm_world False [''lca''] [''correlation_coefficients'']
     (dask_kernel\<lparr>dirs := set (prefixes write_dir_lca)\<rparr>)))
   = [Print (CHR 0x0A # ''>>> lca''),
      Exists write_dir_lca True,
      Print ''--- correlation_coefficients -> 114688 parameters, None iterations'',
      ProblemCall (spec_dask_args
          \<lparr>entry_model = demo_lca, entry_write_dir = write_dir_lca,
           entry_iterations = 229376, entry_const = 2\<rparr> ''correlation_coefficients'')
        (Inr \<lparr>gsa_dict = [(''sa_results'', write_dir_lca @ [''correlation_coefficients''])]\<rparr>)]"
  by (simp add: run_defs str_int_def str_iterations_def str_nat.simps digit_def
                spec_dask_args_def spec_iterations_def)

lemma recorded_local_output:
  "concat (map (\<lambda>e. case e of Print s \<Rightarrow> [s] | _ \<Rightarrow> [])
     (trace (snd (local_driver calm_world [''morris'', ''sobol_levitan'']
        [''correlation_coefficients'', ''sobol_indices'', ''eFAST_indices'', ''xgboost'']
        local_kernel))))
   = [CHR 0x0A # ''>>> morris'', ''--- correlation_coefficients'', ''--- sobol_indices'',
      ''--- eFAST_indices'', ''--- xgboost'',
      CHR 0x0A # ''>>> sobol_levitan'', ''--- correlation_coefficients'', ''--- sobol_indices'',
      ''--- eFAST_indices'', ''--- xgboost'']"
  by (simp add: run_defs)


text \<open>
  Claim C9. In both notebooks the registry has the four entries \<^verbatim>\<open>lca\<close>, \<^verbatim>\<open>moon\<close>,
  \<^verbatim>\<open>morris\<close> and \<^verbatim>\<open>sobol_levitan\<close>, and in every entry the stored iteration count is the
  stored model's number of parameters times the entry's scaling constant, whatever the
  four model objects are.
\<close>

theorem registry_iterations_scaled:
  "list_all (\<lambda>(name, e). iterations_scaled e) (models_dict_local ml mm mo ms)
   \<and> map fst (models_dict_local ml mm mo ms) = [''lca'', ''moon'', ''morris'', ''sobol_levitan'']
   \<and> map (entry_model \<circ> snd) (models_dict_local ml mm mo ms) = [ml, mm, mo, ms]
   \<and> list_all (\<lambda>(name, e). iterations_scaled e) (models_dict_dask ml mm mo ms)
   \<and> map fst (models_dict_dask ml mm mo ms) = [''lca'', ''moon'', ''morris'', ''sobol_levitan'']
   \<and> map (entry_model \<circ> snd) (models_dict_dask ml mm mo ms) = [ml, mm, mo, ms]"
  by (simp add: models_dict_local_def models_dict_dask_def iterations_scaled_def Let_def)

theorem registry_iterations_scaled_witness:
  "list_all (\<lambda>(name, e). iterations_scaled e)
      (models_dict_local demo_lca demo_moon demo_morris demo_SL)
   \<and> map (entry_iterations \<circ> snd) (models_dict_local demo_lca demo_moon demo_morris demo_SL)
        = [229376, 9, 5000, 400]
   \<and> list_all (\<lambda>(name, e). iterations_scaled e)
      (models_dict_dask demo_lca demo_moon demo_morris demo_SL)
   \<and> map (entry_iterations \<circ> snd) (models_dict_dask demo_lca demo_moon demo_morris demo_SL)
        = [229376, 6, 100, 40]"
  using registry_iterations_scaled [of demo_lca demo_moon demo_morris demo_SL]
  by (simp add: models_dict_local_def models_dict_dask_def Let_def
                demo_lca_def demo_moon_def demo_morris_def demo_SL_def)


section \<open>The registry\<close>

text \<open>
  Claim C7. The model registry is read-only after construction: whatever the external
  calls return or raise, and whether the run ends normally or not, the registry that the
  local driver loop leaves is the registry it started from, and so is the registry left by
  the dask-capable driver loop alone and by the whole dask notebook (driver cell, cluster
  cells and \<^verbatim>\<open>dask.compute\<close>): no entry is added, removed or changed.
\<close>

theorem registry_read_only:
  "models_dict (snd (local_driver w mns gs st)) = models_dict st
   \<and> models_dict (snd (dask_driver w ud mns gs st)) = models_dict st
   \<and> models_dict (snd (notebook_dask w ud pc mns gs st)) = models_dict st"
proof (intro conjI)
  show "models_dict (snd (local_driver w mns gs st)) = models_dict st"
    by (rule local_driver_registry [of w mns gs st "fst (local_driver w mns gs st)"]) simp
  show "models_dict (snd (dask_driver w ud mns gs st)) = models_dict st"
    by (rule dask_driver_registry [of w ud mns gs st "fst (dask_driver w ud mns gs st)"]) simp
  show "models_dict (snd (notebook_dask w ud pc mns gs st)) = models_dict st"
    by (rule notebook_dask_registry
          [of w ud pc mns gs st "fst (notebook_dask w ud pc mns gs st)"]) simp
qed

theorem registry_read_only_witness:
  "map fst (models_dict (snd (local_driver stormy_world [''morris'', ''sobol_levitan'']
       [''correlation_coefficients'', ''sobol_indices''] local_kernel)))
     = [''lca'', ''moon'', ''morris'', ''sobol_levitan'']
   \<and> map fst (models_dict (snd (notebook_dask calm_world True ''merlin'' [''lca'']
       [''correlation_coefficients'', ''xgboost''] dask_kernel)))
     = [''lca'', ''moon'', ''morris'', ''sobol_levitan'']"
  using registry_read_only [where w = stormy_world and mns = "[''morris'', ''sobol_levitan'']"
          and gs = "[''correlation_coefficients'', ''sobol_indices'']" and st = local_kernel]
        registry_read_only [where w = calm_world and ud = True and pc = "''merlin''"
          and mns = "[''lca'']" and gs = "[''correlation_coefficients'', ''xgboost'']"
          and st = dask_kernel]
  by (simp add: local_kernel_def dask_kernel_def fresh_kernel_def
                models_dict_local_def models_dict_dask_def Let_def)


section \<open>One Problem descriptor per pair\<close>





text \<open>
  Claim C2. A Problem descriptor is a record of exactly seven fields: sampler, model,
  interpreter, write\_dir, iterations, seed and X. In every run of either driver the
  descriptors constructed so far follow the plan pair by pair: the descriptor of the pair
  (model name \<open>mn\<close>, method \<open>g\<close>) carries the model and the output directory stored in the
  registry entry of \<open>mn\<close>, and \<open>g\<close> as its interpreter. A run that ends normally has
  covered the whole plan, a run that raises a prefix of it.
\<close>

theorem descriptor_fields:
  "progress (fst (local_driver w mns gs st))
     (map (\<lambda>a. Some (model a, write_dir a, interpreter a))
        (constructions (since (trace st) (trace (snd (local_driver w mns gs st))))))
     (planned (\<lambda>cfg g. (entry_model cfg, entry_write_dir cfg, g)) (models_dict st) mns gs)
   \<and> progress (fst (dask_driver w ud mns gs st))
     (map (\<lambda>a. Some (model a, write_dir a, interpreter a))
        (descriptors (since (trace st) (trace (snd (dask_driver w ud mns gs st))))))
     (planned (\<lambda>cfg g. (entry_model cfg, entry_write_dir cfg, g)) (models_dict st) mns gs)
   \<and> (a :: problem_args) =
       \<lparr>sampler = sampler a, model = model a, interpreter = interpreter a,
        write_dir = write_dir a, iterations = iterations a, seed = seed a, X = X a\<rparr>"
proof (intro conjI)
  let ?h = "map_option (\<lambda>a. (model a, write_dir a, interpreter a))"
  obtain out st' where run: "local_driver w mns gs st = (out, st')"
    by (cases "local_driver w mns gs st")
  from local_driver_plan [OF run] obtain N where
    N: "trace st' = trace st @ N"
       "progress out (map Some (constructions N)) (planned spec_local_args (models_dict st) mns gs)"
    by auto
  from progress_map [OF N(2), of ?h] N(1)
  show "progress (fst (local_driver w mns gs st))
     (map (\<lambda>a. Some (model a, write_dir a, interpreter a))
        (constructions (since (trace st) (trace (snd (local_driver w mns gs st))))))
     (planned (\<lambda>cfg g. (entry_model cfg, entry_write_dir cfg, g)) (models_dict st) mns gs)"
    by (simp add: run planned_map comp_def spec_local_args_def)
next
  let ?h = "map_option (\<lambda>a. (model a, write_dir a, interpreter a))"
  obtain out st' where run: "dask_driver w ud mns gs st = (out, st')"
    by (cases "dask_driver w ud mns gs st")
  from dask_driver_plan [OF run] obtain N where
    N: "trace st' = trace st @ N"
       "progress out (map Some (descriptors N)) (planned spec_dask_args (models_dict st) mns gs)"
    by auto
  from progress_map [OF N(2), of ?h] N(1)
  show "progress (fst (dask_driver w ud mns gs st))
     (map (\<lambda>a. Some (model a, write_dir a, interpreter a))
        (descriptors (since (trace st) (trace (snd (dask_driver w ud mns gs st))))))
     (planned (\<lambda>cfg g. (entry_model cfg, entry_write_dir cfg, g)) (models_dict st) mns gs)"
    by (simp add: run planned_map comp_def spec_dask_args_def)
next
  show "a = \<lparr>sampler = sampler a, model = model a, interpreter = interpreter a,
        write_dir = write_dir a, iterations = iterations a, seed = seed a, X = X a\<rparr>"
    by simp
qed

theorem descriptor_fields_witness:
  "fst (local_driver calm_world [''morris'', ''sobol_levitan'']
     [''correlation_coefficients'', ''sobol_indices'', ''eFAST_indices'', ''xgboost'']
     local_kernel) = Normal
   \<and> map (\<lambda>a. Some (model a, write_dir a, interpreter a))
       (constructions (trace (snd (local_driver calm_world [''morris'', ''sobol_levitan'']
         [''correlation_coefficients'', ''sobol_indices'', ''eFAST_indices'', ''xgboost'']
         local_kernel))))
     = [Some (demo_morris, write_dir_morris, ''correlation_coefficients''),
        Some (demo_morris, write_dir_morris, ''sobol_indices''),
        Some (demo_morris, write_dir_morris, ''eFAST_indices''),
        Some (demo_morris, write_dir_morris, ''xgboost''),
        Some (demo_SL, write_dir_SL, ''correlation_coefficients''),
        Some (demo_SL, write_dir_SL, ''sobol_indices''),
        Some (demo_SL, write_dir_SL, ''eFAST_indices''),
        Some (demo_SL, write_dir_SL, ''xgboost'')]"
proof -
  note t = descriptor_fields [where w = calm_world and mns = "[''morris'', ''sobol_levitan'']"
      and gs = "[''correlation_coefficients'', ''sobol_indices'', ''eFAST_indices'', ''xgboost'']"
      and st = local_kernel,
      unfolded recorded_local_run local_kernel_fields since_Nil progress_Normal]
  have plan: "planned (\<lambda>cfg g. (entry_model cfg, entry_write_dir cfg, g))
       (models_dict_local demo_lca demo_moon demo_morris demo_SL) [''morris'', ''sobol_levitan'']
       [''correlation_coefficients'', ''sobol_indices'', ''eFAST_indices'', ''xgboost'']
     = [Some (demo_morris, write_dir_morris, ''correlation_coefficients''),
        Some (demo_morris, write_dir_morris, ''sobol_indices''),
        Some (demo_morris, write_dir_morris, ''eFAST_indices''),
        Some (demo_morris, write_dir_morris, ''xgboost''),
        Some (demo_SL, write_dir_SL, ''correlation_coefficients''),
        Some (demo_SL, write_dir_SL, ''sobol_indices''),
        Some (demo_SL, write_dir_SL, ''eFAST_indices''),
        Some (demo_SL, write_dir_SL, ''xgboost'')]"
    by (simp add: planned_def models_dict_local_def Let_def)
  from t [THEN conjunct1] plan recorded_local_run show ?thesis
    by (simp only: simp_thms)
qed


text \<open>
  Claim C8. In the dask-capable driver the iteration count of a descriptor is not always
  the registry's: the descriptor of the pair (model name \<open>mn\<close>, method \<open>g\<close>) has
  interpreter \<open>g\<close> and iteration count 130 when \<open>g\<close> is \<^verbatim>\<open>eFAST_indices\<close>, \<^verbatim>\<open>None\<close>
  when \<open>g\<close> is \<^verbatim>\<open>correlation_coefficients\<close>, and the iteration count of the registry
  entry of \<open>mn\<close> for every other method (\<open>spec_iterations\<close>). The descriptors of a run
  follow the plan pair by pair; a run that ends normally has covered the whole plan.
\<close>

theorem dask_iterations_override:
  "progress (fst (dask_driver w ud mns gs st))
     (map (\<lambda>a. Some (interpreter a, iterations a))
        (descriptors (since (trace st) (trace (snd (dask_driver w ud mns gs st))))))
     (planned (\<lambda>cfg g. (g, spec_iterations cfg g)) (models_dict st) mns gs)"
proof -
  let ?h = "map_option (\<lambda>a. (interpreter a, iterations a))"
  obtain out st' where run: "dask_driver w ud mns gs st = (out, st')"
    by (cases "dask_driver w ud mns gs st")
  from dask_driver_plan [OF run] obtain N where
    N: "trace st' = trace st @ N"
       "progress out (map Some (descriptors N)) (planned spec_dask_args (models_dict st) mns gs)"
    by auto
  from progress_map [OF N(2), of ?h] N(1)
  show ?thesis
    by (simp add: run planned_map comp_def spec_dask_args_def)
qed

theorem dask_iterations_override_witness:
  "fst (dask_driver calm_world True [''lca'', ''morris'']
     [''correlation_coefficients'', ''eFAST_indices'', ''xgboost''] dask_kernel) = Normal
   \<and> map (\<lambda>a. Some (interpreter a, iterations a))
       (descriptors (trace (snd (dask_driver calm_world True [''lca'', ''morris'']
         [''correlation_coefficients'', ''eFAST_indices'', ''xgboost''] dask_kernel))))
     = [Some (''correlation_coefficients'', None), Some (''eFAST_indices'', Some 130),
        Some (''xgboost'', Some 229376),
        Some (''correlation_coefficients'', None), Some (''eFAST_indices'', Some 130),
        Some (''xgboost'', Some 100)]"
proof -
  note t = dask_iterations_override [where w = calm_world and ud = True
      and mns = "[''lca'', ''morris'']"
      and gs = "[''correlation_coefficients'', ''eFAST_indices'', ''xgboost'']"
      and st = dask_kernel,
      unfolded deferred_dask_run dask_kernel_fields since_Nil progress_Normal]
  have plan: "planned (\<lambda>cfg g. (g, spec_iterations cfg g))
       (models_dict_dask demo_lca demo_moon demo_morris demo_SL) [''lca'', ''morris'']
       [''correlation_coefficients'', ''eFAST_indices'', ''xgboost'']
     = [Some (''correlation_coefficients'', None), Some (''eFAST_indices'', Some 130),
        Some (''xgboost'', Some 229376),
        Some (''correlation_coefficients'', None), Some (''eFAST_indices'', Some 130),
        Some (''xgboost'', Some 100)]"
    by (simp add: planned_def models_dict_dask_def Let_def spec_iterations_def
                  demo_lca_def demo_morris_def)
  from t plan deferred_dask_run show ?thesis
    by (simp only: simp_thms)
qed


text \<open>
  Claim C10. Every Problem descriptor of either driver, in every run, has the sampler kind
  \<^verbatim>\<open>random\<close>, the seed 34534 and no precomputed sample matrix (\<^verbatim>\<open>X = None\<close>); so has
  every Problem that the dask notebook constructs, at once or during \<^verbatim>\<open>dask.compute\<close>.
  The arguments of a pair depend on the registry, the model name and the method only: two
  runs of a driver over the same registry, model names and methods that end normally
  construct the same descriptors, whatever the external calls return.
\<close>

theorem fixed_sampler_seed_matrix:
  "list_all (\<lambda>a. sampler a = ''random'' \<and> seed a = 34534 \<and> X a = None)
     (constructions (since (trace st) (trace (snd (local_driver w mns gs st)))))
   \<and> list_all (\<lambda>a. sampler a = ''random'' \<and> seed a = 34534 \<and> X a = None)
     (descriptors (since (trace st) (trace (snd (dask_driver w ud mns gs st)))))
   \<and> list_all (\<lambda>a. sampler a = ''random'' \<and> seed a = 34534 \<and> X a = None)
     (constructions (since (trace st) (trace (snd (notebook_dask w ud pc mns gs st)))))
   \<and> (fst (local_driver w mns gs st) = Normal \<and> fst (local_driver wb mns gs stb) = Normal
        \<and> models_dict stb = models_dict st \<longrightarrow>
      constructions (since (trace stb) (trace (snd (local_driver wb mns gs stb))))
      = constructions (since (trace st) (trace (snd (local_driver w mns gs st)))))
   \<and> (fst (dask_driver w ud mns gs st) = Normal \<and> fst (dask_driver wb udb mns gs stb) = Normal
        \<and> models_dict stb = models_dict st \<longrightarrow>
      descriptors (since (trace stb) (trace (snd (dask_driver wb udb mns gs stb))))
      = descriptors (since (trace st) (trace (snd (dask_driver w ud mns gs st)))))"
proof (intro conjI impI)
  let ?P = "\<lambda>a. sampler a = ''random'' \<and> seed a = 34534 \<and> X a = None"
  have loc: "?P (spec_local_args cfg g)" for cfg g by (simp add: spec_local_args_def)
  have dsk: "?P (spec_dask_args cfg g)" for cfg g by (simp add: spec_dask_args_def)
  {
    obtain out st' where run: "local_driver w mns gs st = (out, st')"
      by (cases "local_driver w mns gs st")
    from local_driver_plan [OF run] obtain N where
      N: "trace st' = trace st @ N"
         "progress out (map Some (constructions N))
            (planned spec_local_args (models_dict st) mns gs)"
      by auto
    from prefix_planned_all [OF progress_prefix [OF N(2)], of ?P] loc N(1)
    show "list_all ?P (constructions (since (trace st) (trace (snd (local_driver w mns gs st)))))"
      by (simp add: run)
  }
  {
    obtain out st' where run: "dask_driver w ud mns gs st = (out, st')"
      by (cases "dask_driver w ud mns gs st")
    from dask_driver_plan [OF run] obtain N where
      N: "trace st' = trace st @ N"
         "progress out (map Some (descriptors N))
            (planned spec_dask_args (models_dict st) mns gs)"
      by auto
    from prefix_planned_all [OF progress_prefix [OF N(2)], of ?P] dsk N(1)
    show "list_all ?P (descriptors (since (trace st) (trace (snd (dask_driver w ud mns gs st)))))"
      by (simp add: run)
  }
  {
    obtain out st' where run: "notebook_dask w ud pc mns gs st = (out, st')"
      by (cases "notebook_dask w ud pc mns gs st")
    from notebook_dask_constructed [OF run] obtain N D where
      N: "trace st' = trace st @ N"
         "prefix (map Some D) (planned spec_dask_args (models_dict st) mns gs)"
         "set (constructions N) \<subseteq> set D"
      by blast
    from prefix_planned_all [OF N(2), of ?P] dsk have "list_all ?P D" by simp
    with N(3) have "list_all ?P (constructions N)" by (auto simp: list_all_iff)
    with N(1)
    show "list_all ?P
        (constructions (since (trace st) (trace (snd (notebook_dask w ud pc mns gs st)))))"
      by (simp add: run)
  }
  {
    assume h: "fst (local_driver w mns gs st) = Normal \<and> fst (local_driver wb mns gs stb) = Normal
        \<and> models_dict stb = models_dict st"
    obtain st' where run: "local_driver w mns gs st = (Normal, st')"
      using h by (cases "local_driver w mns gs st") auto
    obtain stb' where runb: "local_driver wb mns gs stb = (Normal, stb')"
      using h by (cases "local_driver wb mns gs stb") auto
    from local_driver_plan [OF run] obtain N where
      N: "trace st' = trace st @ N"
         "map Some (constructions N) = planned spec_local_args (models_dict st) mns gs"
      by auto
    from local_driver_plan [OF runb] h obtain Nb where
      Nb: "trace stb' = trace stb @ Nb"
          "map Some (constructions Nb) = planned spec_local_args (models_dict st) mns gs"
      by auto
    from N(2) Nb(2) have "map Some (constructions Nb) = map Some (constructions N)" by simp
    then have "constructions Nb = constructions N" by (simp add: inj_map_eq_map)
    with N(1) Nb(1)
    show "constructions (since (trace stb) (trace (snd (local_driver wb mns gs stb))))
      = constructions (since (trace st) (trace (snd (local_driver w mns gs st))))"
      by (simp add: run runb)
  }
  {
    assume h: "fst (dask_driver w ud mns gs st) = Normal
        \<and> fst (dask_driver wb udb mns gs stb) = Normal \<and> models_dict stb = models_dict st"
    obtain st' where run: "dask_driver w ud mns gs st = (Normal, st')"
      using h by (cases "dask_driver w ud mns gs st") auto
    obtain stb' where runb: "dask_driver wb udb mns gs stb = (Normal, stb')"
      using h by (cases "dask_driver wb udb mns gs stb") auto
    from dask_driver_plan [OF run] obtain N where
      N: "trace st' = trace st @ N"
         "map Some (descriptors N) = planned spec_dask_args (models_dict st) mns gs"
      by auto
    from dask_driver_plan [OF runb] h obtain Nb where
      Nb: "trace stb' = trace stb @ Nb"
          "map Some (descriptors Nb) = planned spec_dask_args (models_dict st) mns gs"
      by auto
    from N(2) Nb(2) have "map Some (descriptors Nb) = map Some (descriptors N)" by simp
    then have "descriptors Nb = descriptors N" by (simp add: inj_map_eq_map)
    with N(1) Nb(1)
    show "descriptors (since (trace stb) (trace (snd (dask_driver wb udb mns gs stb))))
      = descriptors (since (trace st) (trace (snd (dask_driver w ud mns gs st))))"
      by (simp add: run runb)
  }
qed


theorem fixed_sampler_seed_matrix_witness:
  "fst (local_driver calm_world [''morris'', ''sobol_levitan'']
     [''correlation_coefficients'', ''sobol_indices'', ''eFAST_indices'', ''xgboost'']
     local_kernel) = Normal
   \<and> fst (local_driver calm_world [''morris'', ''sobol_levitan'']
     [''correlation_coefficients'', ''sobol_indices'', ''eFAST_indices'', ''xgboost'']
     (emit (Print ''again'') local_kernel)) = Normal
   \<and> list_all (\<lambda>a. sampler a = ''random'' \<and> seed a = 34534 \<and> X a = None)
     (constructions (trace (snd (local_driver calm_world [''morris'', ''sobol_levitan'']
        [''correlation_coefficients'', ''sobol_indices'', ''eFAST_indices'', ''xgboost'']
        local_kernel))))
   \<and> constructions (since [Print ''again''] (trace (snd (local_driver calm_world
        [''morris'', ''sobol_levitan'']
        [''correlation_coefficients'', ''sobol_indices'', ''eFAST_indices'', ''xgboost'']
        (emit (Print ''again'') local_kernel)))))
     = constructions (trace (snd (local_driver calm_world [''morris'', ''sobol_levitan'']
        [''correlation_coefficients'', ''sobol_indices'', ''eFAST_indices'', ''xgboost'']
        local_kernel)))
   \<and> fst (dask_driver calm_world True [''lca'', ''morris'']
        [''correlation_coefficients'', ''eFAST_indices'', ''xgboost''] dask_kernel) = Normal
   \<and> fst (dask_driver calm_world False [''lca'', ''morris'']
        [''correlation_coefficients'', ''eFAST_indices'', ''xgboost''] dask_kernel) = Normal
   \<and> descriptors (trace (snd (dask_driver calm_world False [''lca'', ''morris'']
        [''correlation_coefficients'', ''eFAST_indices'', ''xgboost''] dask_kernel)))
     = descriptors (trace (snd (dask_driver calm_world True [''lca'', ''morris'']
        [''correlation_coefficients'', ''eFAST_indices'', ''xgboost''] dask_kernel)))"
proof -
  note t = fixed_sampler_seed_matrix [where w = calm_world and wb = calm_world
      and ud = True and udb = False and pc = "''merlin''"
      and mns = "[''lca'', ''morris'']"
      and gs = "[''correlation_coefficients'', ''eFAST_indices'', ''xgboost'']"
      and st = dask_kernel and stb = dask_kernel]
  note u = fixed_sampler_seed_matrix [where w = calm_world and wb = calm_world
      and mns = "[''morris'', ''sobol_levitan'']"
      and gs = "[''correlation_coefficients'', ''sobol_indices'', ''eFAST_indices'', ''xgboost'']"
      and st = local_kernel and stb = "emit (Print ''again'') local_kernel"]
  from t deferred_dask_run eager_dask_run
  have d: "descriptors (trace (snd (dask_driver calm_world False [''lca'', ''morris'']
        [''correlation_coefficients'', ''eFAST_indices'', ''xgboost''] dask_kernel)))
     = descriptors (trace (snd (dask_driver calm_world True [''lca'', ''morris'']
        [''correlation_coefficients'', ''eFAST_indices'', ''xgboost''] dask_kernel)))"
    by (simp only: simp_thms dask_kernel_fields since_Nil)
  from u recorded_local_run calm_again_run
  have l: "list_all (\<lambda>a. sampler a = ''random'' \<and> seed a = 34534 \<and> X a = None)
     (constructions (trace (snd (local_driver calm_world [''morris'', ''sobol_levitan'']
        [''correlation_coefficients'', ''sobol_indices'', ''eFAST_indices'', ''xgboost'']
        local_kernel))))
     \<and> constructions (since [Print ''again''] (trace (snd (local_driver calm_world
        [''morris'', ''sobol_levitan'']
        [''correlation_coefficients'', ''sobol_indices'', ''eFAST_indices'', ''xgboost'']
        (emit (Print ''again'') local_kernel)))))
     = constructions (trace (snd (local_driver calm_world [''morris'', ''sobol_levitan'']
        [''correlation_coefficients'', ''sobol_indices'', ''eFAST_indices'', ''xgboost'']
        local_kernel)))"
    by (simp only: simp_thms local_kernel_fields since_Nil again_kernel_fields)
  from d l recorded_local_run deferred_dask_run eager_dask_run calm_again_run
  show ?thesis
    by (simp only: simp_thms)
qed


section \<open>Output directories exist before a Problem is constructed\<close>




section \<open>The result consumer\<close>





section \<open>The deferred path\<close>




section \<open>Exceptions\<close>

text \<open>
  Claim C6. Neither driver handles errors: nothing catches an exception. In every run of
  the local driver and of the dask-capable driver, no external call before the last one
  has raised; a run that ends normally has seen no exception at all; and when a call
  raises (the construction of a Problem, the opening or the loading of the result file, a
  plot call, \<^verbatim>\<open>mkdir\<close>), that call is the last event of the run and the run ends with
  that very exception, so the remaining pairs are not processed. The only other way a run
  ends is an exception of the driver's own (a subscript with a missing key), after calls
  that did not raise.
\<close>

theorem exceptions_propagate:
  "propagated (fst (local_driver w mns gs st))
     (since (trace st) (trace (snd (local_driver w mns gs st))))
   \<and> propagated (fst (dask_driver w ud mns gs st))
     (since (trace st) (trace (snd (dask_driver w ud mns gs st))))"
proof (intro conjI)
  obtain out st' where run: "local_driver w mns gs st = (out, st')"
    by (cases "local_driver w mns gs st")
  from local_driver_uncaught [OF run]
  show "propagated (fst (local_driver w mns gs st))
     (since (trace st) (trace (snd (local_driver w mns gs st))))"
    by (auto simp: run)
next
  obtain out st' where run: "dask_driver w ud mns gs st = (out, st')"
    by (cases "dask_driver w ud mns gs st")
  from dask_driver_uncaught [OF run]
  show "propagated (fst (dask_driver w ud mns gs st))
     (since (trace st) (trace (snd (dask_driver w ud mns gs st))))"
    by (auto simp: run)
qed

theorem exceptions_propagate_witness:
  "fst (local_driver stormy_world [''morris'', ''sobol_levitan'']
     [''correlation_coefficients'', ''sobol_indices'', ''xgboost''] local_kernel)
   = Raised (Exception ''ValueError'')
   \<and> propagated (Raised (Exception ''ValueError''))
       (trace (snd (local_driver stormy_world [''morris'', ''sobol_levitan'']
          [''correlation_coefficients'', ''sobol_indices'', ''xgboost''] local_kernel)))
   \<and> map interpreter (constructions
       (trace (snd (local_driver stormy_world [''morris'', ''sobol_levitan'']
          [''correlation_coefficients'', ''sobol_indices'', ''xgboost''] local_kernel))))
     = [''correlation_coefficients'', ''sobol_indices'']"
proof -
  note t = exceptions_propagate [where w = stormy_world and mns = "[''morris'', ''sobol_levitan'']"
      and gs = "[''correlation_coefficients'', ''sobol_indices'', ''xgboost'']"
      and ud = False and st = local_kernel, THEN conjunct1,
      unfolded stormy_local_run local_kernel_fields since_Nil]
  from t stormy_local_run stormy_local_constructions show ?thesis
    by (simp only: simp_thms)
qed


end
